theory Spec2Isabelle
  imports Main "HOL-Library.Char_ord" "HOL-Library.List_Lexorder" "HOL-Library.AList"
begin

section \<open>Data model (types.ts)\<close>

text \<open>
  Timestamps are ISO-8601 strings and the program compares them with the string
  operators of JavaScript, that is lexicographically by code unit. They are modelled as
  \<^typ>\<open>string\<close> under the lexicographic order on character lists.
  A character of the model is a code unit below 256.
  Issue numbers are natural numbers; a custom-field number is an integer.
  The \<open>project_fields\<close> of an issue is a JavaScript object, kept as the list of its
  entries in the order in which the object lists its keys.
\<close>

datatype issue_state = Open | Closed

datatype ProjectFieldValue = PStr string | PNum int | PNull

record Issue =
  number :: nat
  title :: string
  body :: string
  state :: issue_state
  labels :: "string list"
  assignees :: "string list"
  milestone :: "string option"
  created_at :: string
  updated_at :: string
  closed_at :: "string option"
  project_fields :: "(string \<times> ProjectFieldValue) list option"

datatype data_type = TEXT | NUMBER | DATE | SINGLE_SELECT | ITERATION

record ProjectFieldOption =
  opt_id :: string
  opt_name :: string

record ProjectField =
  field_id :: string
  field_name :: string
  dataType :: data_type
  options :: "ProjectFieldOption list option"

text \<open>
  A project item as \<open>getProjectItemsForIssues\<close> builds it: one JavaScript object with
  the keys \<open>id\<close> and \<open>content\<close> and one key per custom field. A custom field named
  \<open>id\<close> or \<open>content\<close> overwrites that key, so \<open>id\<close> holds a field value (the node id,
  a string, unless it was overwritten) and \<open>content\<close> holds the reference to the issue
  or a field value. \<open>item_fields\<close> are the other keys in the order in which the object
  lists them.
\<close>

datatype item_content = IssueRef nat | FieldContent ProjectFieldValue

record ProjectItem =
  item_id :: ProjectFieldValue
  item_content :: item_content
  item_fields :: "(string \<times> ProjectFieldValue) list"

record ProjectConfig =
  project_number :: "nat option"
  owner :: "string option"
  enabled :: bool
  cached_fields :: "ProjectField list option"
  fields_cached_at :: "string option"

text \<open>
  The record of one issue in the sync state. \<open>project_item_id\<close> is declared a string;
  pull stores \<open>projectItem.id\<close> in it, whatever value that key holds.
\<close>

record SyncRecord =
  github_updated_at :: string
  local_updated_at :: string
  last_synced_at :: string
  project_item_id :: "ProjectFieldValue option"
  project_fields_updated_at :: "string option"

text \<open>
  \<open>SyncState.issues\<close>: a JavaScript object keyed by issue number, as an association
  list read with \<^const>\<open>map_of\<close> and written with \<^const>\<open>AList.update\<close>. The program
  reads the object by key, and all its values together only to take the greatest sync
  time; the order of the list stands for nothing.
\<close>

type_synonym SyncState = "(nat \<times> SyncRecord) list"

record ConflictInfo =
  c_number :: nat
  c_title :: string
  github_updated :: string
  local_updated :: string
  last_synced :: string

text \<open>JavaScript truthiness of a string, and of an optional string or number.\<close>

definition truthy :: "string \<Rightarrow> bool" where
  "truthy s = (s \<noteq> [])"

definition truthy_opt :: "string option \<Rightarrow> bool" where
  "truthy_opt s = (case s of None \<Rightarrow> False | Some t \<Rightarrow> truthy t)"

definition truthy_num :: "nat option \<Rightarrow> bool" where
  "truthy_num n = (case n of None \<Rightarrow> False | Some k \<Rightarrow> k \<noteq> 0)"

fun truthy_value :: "ProjectFieldValue \<Rightarrow> bool" where
  "truthy_value (PStr s) = truthy s"
| "truthy_value (PNum k) = (k \<noteq> 0)"
| "truthy_value PNull = False"

definition truthy_value_opt :: "ProjectFieldValue option \<Rightarrow> bool" where
  "truthy_value_opt v = (case v of None \<Rightarrow> False | Some w \<Rightarrow> truthy_value w)"

text \<open>
  A JavaScript object lists its keys that are array indices (canonical decimal numerals
  up to \<open>2^32 - 2\<close>) first, in ascending order, and then its other string keys in the
  order of their creation. An object is kept as the list of its entries in that order;
  \<open>js_set k v obj\<close> is the assignment \<open>obj[k] = v\<close>.
\<close>

definition is_digit :: "char \<Rightarrow> bool" where
  "is_digit c = (CHR ''0'' \<le> c \<and> c \<le> CHR ''9'')"

definition decimal :: "string \<Rightarrow> int" where
  "decimal s = fold (\<lambda>c n. 10 * n + (of_char c - 48)) s 0"

definition array_index :: "string \<Rightarrow> int option" where
  "array_index k =
     (if k \<noteq> [] \<and> list_all is_digit k \<and> (k = ''0'' \<or> hd k \<noteq> CHR ''0'')
         \<and> decimal k < 4294967295
      then Some (decimal k) else None)"

fun js_insert :: "int \<Rightarrow> string \<times> 'v \<Rightarrow> (string \<times> 'v) list \<Rightarrow> (string \<times> 'v) list" where
  "js_insert i kv [] = [kv]"
| "js_insert i kv (p # obj) =
     (case array_index (fst p) of
        None \<Rightarrow> kv # p # obj
      | Some j \<Rightarrow> if j < i then p # js_insert i kv obj else kv # p # obj)"

definition js_set :: "string \<Rightarrow> 'v \<Rightarrow> (string \<times> 'v) list \<Rightarrow> (string \<times> 'v) list" where
  "js_set k v obj =
     (case array_index k of
        None \<Rightarrow> AList.update k v obj
      | Some i \<Rightarrow> if k \<in> fst ` set obj then AList.update k v obj else js_insert i (k, v) obj)"

text \<open>
  \<open>String.prototype.trim\<close>. A character of the model is a code unit below 256; of the
  white space and the line terminators that \<open>trim\<close> strips, those in this range are
  U+0009 to U+000D, U+0020 and U+00A0.
\<close>

definition is_space :: "char \<Rightarrow> bool" where
  "is_space c = (c \<in> set [CHR 0x09, CHR 0x0A, CHR 0x0B, CHR 0x0C, CHR 0x0D, CHR 0x20, CHR 0xA0])"

definition trim :: "string \<Rightarrow> string" where
  "trim s = rev (dropWhile is_space (rev (dropWhile is_space s)))"

section \<open>Effects and collaborators\<close>

datatype error =
    RepoError
  | MkdirError
  | ListError
  | WriteIssueError nat
  | WriteStateError
  | WriteConfigError
  | UpdateIssueError nat
  | FieldsError
  | ProjectIdError
  | GraphqlError
  | UnknownOption ProjectFieldValue string
  | UpdateFieldError error
  | EngineError

text \<open>The parameters of \<open>octokit.rest.issues.listForRepo\<close> that \<open>fetchIssues\<close> sets.\<close>

datatype list_state = StateOpen | StateAll

record list_params =
  p_state :: list_state
  p_per_page :: nat
  p_page :: nat
  p_since :: "string option"

text \<open>The partial update \<open>syncUp\<close> builds for \<open>updateIssue\<close>; an absent key is \<open>None\<close>.\<close>

record updates =
  u_title :: "string option"
  u_body :: "string option"
  u_state :: "issue_state option"
  u_labels :: "string list option"
  u_assignees :: "string list option"

text \<open>
  The GraphQL mutations of \<open>updateProjectField\<close>, each with project id, item id and
  field id; the item id is the \<open>project_item_id\<close> of a record. \<open>SetText\<close> and
  \<open>SetDate\<close> send \<open>String(value)\<close>, \<open>SetNumber\<close> sends \<open>Number(value)\<close>; the value is
  kept as it is before the conversion.
\<close>

datatype mutation =
    ClearField string ProjectFieldValue string
  | SetText string ProjectFieldValue string ProjectFieldValue
  | SetNumber string ProjectFieldValue string ProjectFieldValue
  | SetDate string ProjectFieldValue string ProjectFieldValue
  | SetSingleSelect string ProjectFieldValue string string
  | SetIteration string ProjectFieldValue string string

text \<open>One node of \<open>fieldValues\<close> and one node of \<open>projectItems\<close> in a GraphQL answer.\<close>

record raw_field_value =
  fv_field_name :: "string option"
  fv_name :: "string option"
  fv_text :: "string option"
  fv_date :: "string option"
  fv_number :: "int option"
  fv_title :: "string option"

record raw_item =
  ri_id :: string
  ri_project_number :: "nat option"
  ri_field_values :: "raw_field_value list option"

text \<open>
  One element of a page of \<open>listForRepo\<close>, with the keys \<open>fetchIssues\<close> reads: a label
  is a string or an object with a name, \<open>raw_milestone\<close> is \<open>milestone?.title\<close>, and
  \<open>raw_pull_request\<close> tells whether the key \<open>pull_request\<close> is set.
\<close>

datatype raw_label = LabelString string | LabelObject string

record raw_issue =
  raw_number :: nat
  raw_title :: string
  raw_body :: "string option"
  raw_state :: issue_state
  raw_labels :: "raw_label list"
  raw_assignees :: "string list option"
  raw_milestone :: "string option"
  raw_created_at :: string
  raw_updated_at :: string
  raw_closed_at :: "string option"
  raw_pull_request :: bool

text \<open>
  Every observable step of a run is an event of its trace: the calls that change the
  local store, the sync state file, the configuration file or the remote side, the
  remote reads, and the reports printed on the console.
\<close>

datatype event =
    LogStart
  | LogRepo string
  | ListIssues list_params
  | LogFetched nat
  | WriteConfig ProjectConfig
  | WarnConfig error
  | WarnProjectData error
  | QueryItems "nat list"
  | WarnBatch error
  | LogProjectData nat
  | WriteIssue Issue
  | WriteState SyncState
  | SkipNotFound nat
  | SkipNoHistory nat
  | Conflict nat
  | WouldUpdate nat "string list"
  | UpdateIssue nat updates
  | WouldUpdateField nat string "ProjectFieldValue option" ProjectFieldValue
  | Mutate nat mutation
  | FieldUpdated nat string
  | WarnFieldUpdate nat string error
  | Summary bool nat
  | LogComplete

text \<open>
  The collaborators of one run. Each field answers one external call: the remote
  issue store, the GraphQL endpoint, the file system and the clock. \<open>now k\<close> is the
  string returned by the \<open>k\<close>-th \<open>new Date().toISOString()\<close> of the run.
\<close>

record env =
  getCurrentRepo :: "error + string"
  mkdir_ok :: bool
  loadAllLocalIssues :: "Issue list"
  loadSyncState :: SyncState
  listForRepo :: "list_params \<Rightarrow> error + raw_issue list"
  getLocalFileModTime :: "nat \<Rightarrow> string option"
  now :: "nat \<Rightarrow> string"
  config_project :: "ProjectConfig option"
  detectProjectForRepo :: "ProjectConfig option"
  writeConfig_ok :: bool
  fields_cache_fresh :: bool
  queryProjectFields :: "error + ProjectField list"
  getProjectId :: "error + string"
  graphql_items :: "nat list \<Rightarrow> error + raw_item list option list"
  graphql_mutation_ok :: "mutation \<Rightarrow> bool"
  updateIssue_ok :: "nat \<Rightarrow> updates \<Rightarrow> bool"
  writeIssue_ok :: "Issue \<Rightarrow> bool"
  writeState_ok :: bool

section \<open>The custom-fields collaborator (project.ts)\<close>

text \<open>
  \<open>fieldValue.name || fieldValue.text || fieldValue.date || fieldValue.number ||
  fieldValue.title || null\<close>: the first truthy alternative. An empty string and the
  number zero are falsy.
\<close>

definition js_str :: "string option \<Rightarrow> ProjectFieldValue option" where
  "js_str s = (case s of None \<Rightarrow> None | Some t \<Rightarrow> if truthy t then Some (PStr t) else None)"

definition js_num :: "int option \<Rightarrow> ProjectFieldValue option" where
  "js_num n = (case n of None \<Rightarrow> None | Some k \<Rightarrow> if k \<noteq> 0 then Some (PNum k) else None)"

fun first_truthy :: "ProjectFieldValue option list \<Rightarrow> ProjectFieldValue" where
  "first_truthy [] = PNull"
| "first_truthy (None # vs) = first_truthy vs"
| "first_truthy (Some v # vs) = v"

definition field_value :: "raw_field_value \<Rightarrow> ProjectFieldValue" where
  "field_value fv =
     first_truthy [js_str (fv_name fv), js_str (fv_text fv), js_str (fv_date fv),
                   js_num (fv_number fv), js_str (fv_title fv)]"

text \<open>\<open>converted[fieldName] = value\<close>, for a node that has a field name.\<close>

definition add_field_value :: "raw_field_value \<Rightarrow> ProjectItem \<Rightarrow> ProjectItem" where
  "add_field_value fv converted =
     (case fv_field_name fv of
        None \<Rightarrow> converted
      | Some fieldName \<Rightarrow>
          if truthy fieldName then
            (if fieldName = ''id'' then converted\<lparr>item_id := field_value fv\<rparr>
             else if fieldName = ''content'' then
               converted\<lparr>item_content := FieldContent (field_value fv)\<rparr>
             else converted\<lparr>item_fields :=
                              js_set fieldName (field_value fv) (item_fields converted)\<rparr>)
          else converted)"

definition convert_item :: "raw_item \<Rightarrow> nat \<Rightarrow> ProjectItem" where
  "convert_item projectItem issueNum =
     (let converted = \<lparr> item_id = PStr (ri_id projectItem),
                         item_content = IssueRef issueNum,
                         item_fields = [] \<rparr>
      in case ri_field_values projectItem of
           None \<Rightarrow> converted
         | Some nodes \<Rightarrow> fold add_field_value nodes converted)"

text \<open>\<open>result?.[`issue${idx}`]?.issue\<close>: the answer for the \<open>idx\<close>-th alias, if any.\<close>

definition issueData :: "raw_item list option list \<Rightarrow> nat \<Rightarrow> raw_item list option" where
  "issueData result idx = (if idx < length result then result ! idx else None)"

definition process_entry ::
  "nat \<Rightarrow> raw_item list option list \<Rightarrow> nat \<times> nat \<Rightarrow> (nat \<times> ProjectItem) list
   \<Rightarrow> (nat \<times> ProjectItem) list" where
  "process_entry projectNumber result p itemsMap =
     (case p of (idx, issueNum) \<Rightarrow>
        (case issueData result idx of
           None \<Rightarrow> itemsMap
         | Some nodes \<Rightarrow>
             (case find (\<lambda>item. ri_project_number item = Some projectNumber) nodes of
                None \<Rightarrow> itemsMap
              | Some projectItem \<Rightarrow>
                  AList.update issueNum (convert_item projectItem issueNum) itemsMap)))"

definition batchSize :: nat where
  "batchSize = 50"

definition slice :: "'a list \<Rightarrow> nat \<Rightarrow> nat \<Rightarrow> 'a list" where
  "slice xs i j = take (j - i) (drop i xs)"

text \<open>
  The batch loop of \<open>getProjectItemsForIssues\<close>. The accumulator is the items map and
  the trace: one \<open>QueryItems\<close> per request, followed by \<open>WarnBatch\<close> when the request
  (or obtaining the client) threw inside the \<open>try\<close>.
\<close>

function items_loop ::
  "env \<Rightarrow> nat \<Rightarrow> nat list \<Rightarrow> nat \<Rightarrow> (nat \<times> ProjectItem) list \<times> event list
   \<Rightarrow> (nat \<times> ProjectItem) list \<times> event list" where
  "items_loop e projectNumber issueNumbers i acc =
     (if i < length issueNumbers then
        (let batch = slice issueNumbers i (i + batchSize) in
         (case graphql_items e batch of
            Inl err \<Rightarrow>
              items_loop e projectNumber issueNumbers (i + batchSize)
                (fst acc, snd acc @ [QueryItems batch, WarnBatch err])
          | Inr result \<Rightarrow>
              items_loop e projectNumber issueNumbers (i + batchSize)
                (fold (process_entry projectNumber result) (List.enumerate 0 batch) (fst acc),
                 snd acc @ [QueryItems batch])))
      else acc)"
  by pat_completeness auto
termination
  by (relation "measure (\<lambda>(e, projectNumber, issueNumbers, i, acc). length issueNumbers - i)")
     (auto simp: batchSize_def)

declare items_loop.simps [simp del]

definition getProjectItemsForIssues ::
  "env \<Rightarrow> nat \<Rightarrow> nat list \<Rightarrow> (nat \<times> ProjectItem) list \<times> event list" where
  "getProjectItemsForIssues e projectNumber issueNumbers =
     items_loop e projectNumber issueNumbers 0 ([], [])"

definition getProjectItemForIssue :: "env \<Rightarrow> nat \<Rightarrow> nat \<Rightarrow> ProjectItem option \<times> event list" where
  "getProjectItemForIssue e projectNumber issueNumber =
     (case getProjectItemsForIssues e projectNumber [issueNumber] of
        (itemsMap, tr) \<Rightarrow> (map_of itemsMap issueNumber, tr))"

definition skipKeys :: "string list" where
  "skipKeys = [''id'', ''content'', ''title'', ''assignees'', ''labels'', ''repository'',
               ''number'', ''url'', ''type'', ''body'',
               ''Title'', ''Assignees'', ''Labels'', ''Milestone'']"

text \<open>\<open>new Map(fields.map(f => [f.name, f]))\<close>: a later field of the same name wins.\<close>

definition fieldMap :: "ProjectField list \<Rightarrow> string \<Rightarrow> ProjectField option" where
  "fieldMap flds = map_of (rev (map (\<lambda>f. (field_name f, f)) flds))"

definition extract_entry ::
  "(string \<Rightarrow> ProjectField option) \<Rightarrow> string \<times> ProjectFieldValue
   \<Rightarrow> (string \<times> ProjectFieldValue) list \<Rightarrow> (string \<times> ProjectFieldValue) list" where
  "extract_entry fm kv values =
     (case kv of (key, v) \<Rightarrow>
        if key \<in> set skipKeys then values
        else (case fm key of
                None \<Rightarrow> js_set key v values
              | Some field \<Rightarrow>
                  (case v of
                     PNull \<Rightarrow> js_set key PNull values
                   | _ \<Rightarrow> js_set key v values)))"

text \<open>
  \<open>extractProjectFieldValues\<close> goes through \<open>Object.entries(item)\<close>. The keys \<open>id\<close> and
  \<open>content\<close> are among \<open>skipKeys\<close>, so the entries that count are \<open>item_fields\<close>.
\<close>

definition extractProjectFieldValues ::
  "ProjectItem \<Rightarrow> ProjectField list \<Rightarrow> (string \<times> ProjectFieldValue) list" where
  "extractProjectFieldValues item flds =
     fold (extract_entry (fieldMap flds)) (item_fields item) []"

text \<open>
  \<open>updateProjectField\<close> returns the mutation calls it issued and the error it threw,
  if any. Clearing a field is outside the \<open>try\<close>, so its error is not wrapped.
\<close>

definition mutate :: "env \<Rightarrow> mutation \<Rightarrow> mutation list \<times> error option" where
  "mutate e m = ([m], if graphql_mutation_ok e m then None else Some GraphqlError)"

definition wrap_error :: "mutation list \<times> error option \<Rightarrow> mutation list \<times> error option" where
  "wrap_error r = (fst r, map_option UpdateFieldError (snd r))"

definition find_option :: "ProjectField \<Rightarrow> ProjectFieldValue \<Rightarrow> ProjectFieldOption option" where
  "find_option field v =
     (case options field of
        None \<Rightarrow> None
      | Some opts \<Rightarrow> find (\<lambda>opt. PStr (opt_name opt) = v) opts)"

definition updateProjectField ::
  "env \<Rightarrow> string \<Rightarrow> ProjectFieldValue \<Rightarrow> string \<Rightarrow> ProjectField \<Rightarrow> ProjectFieldValue
   \<Rightarrow> mutation list \<times> error option" where
  "updateProjectField e projectId itemId fieldId field v =
     (if v = PNull then mutate e (ClearField projectId itemId fieldId)
      else wrap_error
        (case dataType field of
           TEXT \<Rightarrow> mutate e (SetText projectId itemId fieldId v)
         | NUMBER \<Rightarrow> mutate e (SetNumber projectId itemId fieldId v)
         | DATE \<Rightarrow> mutate e (SetDate projectId itemId fieldId v)
         | SINGLE_SELECT \<Rightarrow>
             (case find_option field v of
                None \<Rightarrow> ([], Some (UnknownOption v (field_name field)))
              | Some option \<Rightarrow> mutate e (SetSingleSelect projectId itemId fieldId (opt_id option)))
         | ITERATION \<Rightarrow>
             (case find_option field v of
                None \<Rightarrow> ([], Some (UnknownOption v (field_name field)))
              | Some iteration \<Rightarrow>
                  mutate e (SetIteration projectId itemId fieldId (opt_id iteration)))))"

text \<open>
  \<open>getProjectFields\<close>: the cached schema when it is present and younger than 24 hours
  (the age test is the collaborator \<open>fields_cache_fresh\<close>), else a fresh query. The
  boolean tells whether the result is the cached array itself.
\<close>

definition getProjectFields ::
  "env \<Rightarrow> ProjectField list option \<Rightarrow> string option \<Rightarrow> error + (ProjectField list \<times> bool)" where
  "getProjectFields e cachedFields cacheAge =
     (case cachedFields of
        Some cached \<Rightarrow>
          if truthy_opt cacheAge \<and> fields_cache_fresh e then Inr (cached, True)
          else (case queryProjectFields e of
                  Inl err \<Rightarrow> Inl FieldsError
                | Inr flds \<Rightarrow> Inr (flds, False))
      | None \<Rightarrow>
          (case queryProjectFields e of
             Inl err \<Rightarrow> Inl FieldsError
           | Inr flds \<Rightarrow> Inr (flds, False)))"

text \<open>
  \<open>getOrCreateProjectConfig\<close>: the configured project, else the detected one, which is
  written to the configuration file (a failed write is only a warning).
\<close>

definition getOrCreateProjectConfig :: "env \<Rightarrow> ProjectConfig option \<times> event list" where
  "getOrCreateProjectConfig e =
     (case config_project e of
        Some p \<Rightarrow> (Some p, [])
      | None \<Rightarrow>
          (case detectProjectForRepo e of
             None \<Rightarrow> (None, [])
           | Some detected \<Rightarrow>
               (Some detected,
                if writeConfig_ok e then [WriteConfig detected]
                else [WriteConfig detected, WarnConfig WriteConfigError])))"

section \<open>The remote issue store (gh.ts)\<close>

text \<open>
  The request parameters of \<open>fetchIssues\<close> for one page. \<open>since\<close> is set only when
  \<open>updatedSince\<close> is truthy.
\<close>

definition per_page :: nat where
  "per_page = 100"

definition fetchIssues_params :: "bool \<Rightarrow> string option \<Rightarrow> nat \<Rightarrow> list_params" where
  "fetchIssues_params includeClosed updatedSince page =
     \<lparr> p_state = (if includeClosed then StateAll else StateOpen),
       p_per_page = per_page,
       p_page = page,
       p_since = (if truthy_opt updatedSince then updatedSince else None) \<rparr>"

text \<open>Lines 40 to 58: a pull request is left out, an issue is converted.\<close>

definition label_name :: "raw_label \<Rightarrow> string" where
  "label_name l = (case l of LabelString s \<Rightarrow> s | LabelObject n \<Rightarrow> n)"

definition to_issue :: "raw_issue \<Rightarrow> Issue" where
  "to_issue issue =
     \<lparr> number = raw_number issue,
       title = raw_title issue,
       body = trim (case raw_body issue of None \<Rightarrow> [] | Some b \<Rightarrow> b),
       state = raw_state issue,
       labels = map label_name (raw_labels issue),
       assignees = (case raw_assignees issue of None \<Rightarrow> [] | Some as \<Rightarrow> as),
       milestone = (if truthy_opt (raw_milestone issue) then raw_milestone issue else None),
       created_at = raw_created_at issue,
       updated_at = raw_updated_at issue,
       closed_at = (if truthy_opt (raw_closed_at issue) then raw_closed_at issue else None),
       project_fields = None \<rparr>"

definition page_issues :: "raw_issue list \<Rightarrow> Issue list" where
  "page_issues data = map to_issue (filter (\<lambda>issue. \<not> raw_pull_request issue) data)"

text \<open>
  The loop of \<open>fetchIssues\<close> from a given page on. The accumulator is \<open>allIssues\<close> and
  the trace, one \<open>ListIssues\<close> per request. The loop ends at an empty or a short page
  and with the error of a failed request; a remote store that answers full pages for
  ever keeps it running, and the result is \<open>None\<close>.
\<close>

partial_function (option) fetch_pages ::
  "env \<Rightarrow> bool \<Rightarrow> string option \<Rightarrow> nat \<Rightarrow> Issue list \<times> event list
   \<Rightarrow> ((error + Issue list) \<times> event list) option" where
  [code]: "fetch_pages e includeClosed updatedSince page acc =
     (case listForRepo e (fetchIssues_params includeClosed updatedSince page) of
        Inl err \<Rightarrow>
          Some (Inl err,
                snd acc @ [ListIssues (fetchIssues_params includeClosed updatedSince page)])
      | Inr data \<Rightarrow>
          if length data = 0 then
            Some (Inr (fst acc),
                  snd acc @ [ListIssues (fetchIssues_params includeClosed updatedSince page)])
          else if length data < per_page then
            Some (Inr (fst acc @ page_issues data),
                  snd acc @ [ListIssues (fetchIssues_params includeClosed updatedSince page)])
          else
            fetch_pages e includeClosed updatedSince (page + 1)
              (fst acc @ page_issues data,
               snd acc @ [ListIssues (fetchIssues_params includeClosed updatedSince page)]))"

definition fetchIssues ::
  "env \<Rightarrow> bool \<Rightarrow> string option \<Rightarrow> ((error + Issue list) \<times> event list) option" where
  "fetchIssues e includeClosed updatedSince = fetch_pages e includeClosed updatedSince 1 ([], [])"

section \<open>The sync engine: push (syncUp)\<close>

record up_st =
  st_issues :: SyncState
  st_updated :: nat
  st_tick :: nat
  st_trace :: "event list"

record project_ctx =
  ctx_fields :: "ProjectField list option"
  ctx_projectId :: "string option"
  ctx_number :: nat

record run =
  r_error :: "error option"
  r_trace :: "event list"
  r_saved :: "SyncState option"
  r_updated :: nat

text \<open>The record a run has saved for an issue, if it saved the state.\<close>

definition saved_record :: "run \<Rightarrow> nat \<Rightarrow> SyncRecord option" where
  "saved_record r n = (case r_saved r of None \<Rightarrow> None | Some st \<Rightarrow> map_of st n)"

definition emit :: "event list \<Rightarrow> up_st \<Rightarrow> up_st" where
  "emit evs s = s\<lparr>st_trace := st_trace s @ evs\<rparr>"

text \<open>\<open>new Map(remoteIssues.map(i => [i.number, i]))\<close>: a later issue of the same number wins.\<close>

definition remoteMap :: "Issue list \<Rightarrow> nat \<Rightarrow> Issue option" where
  "remoteMap remoteIssues = map_of (rev (map (\<lambda>i. (number i, i)) remoteIssues))"

definition localModified :: "string option \<Rightarrow> SyncRecord \<Rightarrow> bool" where
  "localModified fileModTime syncInfo =
     (case fileModTime of
        None \<Rightarrow> False
      | Some t \<Rightarrow> if truthy t then t > last_synced_at syncInfo else False)"

definition remoteModified :: "Issue \<Rightarrow> SyncRecord \<Rightarrow> bool" where
  "remoteModified remote syncInfo = (updated_at remote > github_updated_at syncInfo)"

definition diff_updates :: "Issue \<Rightarrow> Issue \<Rightarrow> updates" where
  "diff_updates local remote =
     \<lparr> u_title = (if title local \<noteq> title remote then Some (title local) else None),
       u_body = (if body local \<noteq> body remote then Some (body local) else None),
       u_state = (if state local \<noteq> state remote then Some (state local) else None),
       u_labels = (if labels local \<noteq> labels remote then Some (labels local) else None),
       u_assignees =
         (if assignees local \<noteq> assignees remote then Some (assignees local) else None) \<rparr>"

text \<open>\<open>Object.keys(updates)\<close>, in insertion order.\<close>

definition update_keys :: "updates \<Rightarrow> string list" where
  "update_keys u =
     (if u_title u \<noteq> None then [''title''] else []) @
     (if u_body u \<noteq> None then [''body''] else []) @
     (if u_state u \<noteq> None then [''state''] else []) @
     (if u_labels u \<noteq> None then [''labels''] else []) @
     (if u_assignees u \<noteq> None then [''assignees''] else [])"

text \<open>
  Lines 208 to 225: the dry-run report, or the remote update followed by the reset of
  the record. A failed \<open>updateIssue\<close> throws out of \<open>syncUp\<close>.
\<close>

definition push_updates ::
  "env \<Rightarrow> bool \<Rightarrow> Issue \<Rightarrow> updates \<Rightarrow> up_st \<Rightarrow> (error \<times> up_st) + up_st" where
  "push_updates e dryRun local upd s =
     (if length (update_keys upd) > 0 then
        (if dryRun then
           Inr ((emit [WouldUpdate (number local) (update_keys upd)] s)
                  \<lparr>st_updated := st_updated s + 1\<rparr>)
         else if updateIssue_ok e (number local) upd then
           Inr ((emit [UpdateIssue (number local) upd] s)
                  \<lparr>st_issues :=
                     AList.update (number local)
                       \<lparr> github_updated_at = now e (st_tick s),
                         local_updated_at = updated_at local,
                         last_synced_at = now e (st_tick s + 1),
                         project_item_id = None,
                         project_fields_updated_at = None \<rparr>
                       (st_issues s),
                   st_tick := st_tick s + 2,
                   st_updated := st_updated s + 1\<rparr>)
         else Inl (UpdateIssueError (number local), emit [UpdateIssue (number local) upd] s))
      else Inr s)"

text \<open>Lines 241 to 259: one entry of \<open>local.project_fields\<close>.\<close>

definition sync_field ::
  "env \<Rightarrow> bool \<Rightarrow> nat \<Rightarrow> string \<Rightarrow> ProjectFieldValue \<Rightarrow> (string \<Rightarrow> ProjectField option)
   \<Rightarrow> (string \<times> ProjectFieldValue) list \<Rightarrow> string \<times> ProjectFieldValue \<Rightarrow> event list" where
  "sync_field e dryRun n projectId itemId fm remoteFields entry =
     (case entry of (fieldName, localValue) \<Rightarrow>
        (case fm fieldName of
           None \<Rightarrow> []
         | Some field \<Rightarrow>
             if Some localValue \<noteq> map_of remoteFields fieldName then
               (if dryRun then
                  [WouldUpdateField n fieldName (map_of remoteFields fieldName) localValue]
                else
                  (case updateProjectField e projectId itemId (field_id field) field localValue of
                     (ms, None) \<Rightarrow> map (Mutate n) ms @ [FieldUpdated n fieldName]
                   | (ms, Some err) \<Rightarrow> map (Mutate n) ms @ [WarnFieldUpdate n fieldName err]))
             else []))"

definition stamp_fields :: "nat \<Rightarrow> string \<Rightarrow> SyncState \<Rightarrow> SyncState" where
  "stamp_fields n t st =
     (case map_of st n of
        None \<Rightarrow> st
      | Some r \<Rightarrow> AList.update n (r\<lparr>project_fields_updated_at := Some t\<rparr>) st)"

text \<open>
  Lines 228 to 265: the custom-field step. \<open>syncInfo\<close> is the record read at the top of
  the iteration (line 171), not the one \<open>push_updates\<close> may have stored since.
\<close>

definition sync_project_fields ::
  "env \<Rightarrow> bool \<Rightarrow> project_ctx \<Rightarrow> SyncRecord \<Rightarrow> Issue \<Rightarrow> up_st \<Rightarrow> up_st" where
  "sync_project_fields e dryRun ctx syncInfo local s =
     (case ctx_fields ctx of
        None \<Rightarrow> s
      | Some projectFields \<Rightarrow>
      (case ctx_projectId ctx of
        None \<Rightarrow> s
      | Some projectId \<Rightarrow>
      (case project_item_id syncInfo of
        None \<Rightarrow> s
      | Some itemId \<Rightarrow>
      (case project_fields local of
        None \<Rightarrow> s
      | Some localFields \<Rightarrow>
          if truthy projectId \<and> truthy_value itemId then
            (case getProjectItemForIssue e (ctx_number ctx) (number local) of
               (None, tr) \<Rightarrow> emit tr s
             | (Some remoteProjectItem, tr) \<Rightarrow>
                 (let remoteFields = extractProjectFieldValues remoteProjectItem projectFields;
                      s1 = emit (tr @ concat (map
                             (sync_field e dryRun (number local) projectId itemId
                                (fieldMap projectFields) remoteFields)
                             localFields)) s
                  in if \<not> dryRun then
                       s1\<lparr>st_issues :=
                            stamp_fields (number local) (now e (st_tick s1)) (st_issues s1),
                          st_tick := st_tick s1 + 1\<rparr>
                     else s1))
          else s))))"

text \<open>The body of the loop over \<open>localIssues\<close> (lines 169 to 266).\<close>

definition syncUp_issue ::
  "env \<Rightarrow> bool \<Rightarrow> bool \<Rightarrow> project_ctx \<Rightarrow> Issue list \<Rightarrow> Issue \<Rightarrow> up_st
   \<Rightarrow> (error \<times> up_st) + up_st" where
  "syncUp_issue e force dryRun ctx remoteIssues local s =
     (case remoteMap remoteIssues (number local) of
        None \<Rightarrow> Inr (emit [SkipNotFound (number local)] s)
      | Some remote \<Rightarrow>
          (case map_of (st_issues s) (number local) of
             None \<Rightarrow> Inr (emit [SkipNoHistory (number local)] s)
           | Some syncInfo \<Rightarrow>
               if remoteModified remote syncInfo
                  \<and> localModified (getLocalFileModTime e (number local)) syncInfo \<and> \<not> force
               then Inr (emit [Conflict (number local)] s)
               else if \<not> localModified (getLocalFileModTime e (number local)) syncInfo
               then Inr s
               else
                 (case push_updates e dryRun local (diff_updates local remote) s of
                    Inl x \<Rightarrow> Inl x
                  | Inr s1 \<Rightarrow> Inr (sync_project_fields e dryRun ctx syncInfo local s1))))"

fun syncUp_loop ::
  "env \<Rightarrow> bool \<Rightarrow> bool \<Rightarrow> project_ctx \<Rightarrow> Issue list \<Rightarrow> Issue list \<Rightarrow> up_st
   \<Rightarrow> (error \<times> up_st) + up_st" where
  "syncUp_loop e force dryRun ctx remoteIssues [] s = Inr s"
| "syncUp_loop e force dryRun ctx remoteIssues (local # rest) s =
     (case syncUp_issue e force dryRun ctx remoteIssues local s of
        Inl x \<Rightarrow> Inl x
      | Inr s1 \<Rightarrow> syncUp_loop e force dryRun ctx remoteIssues rest s1)"

definition project_enabled :: "bool \<Rightarrow> ProjectConfig option \<Rightarrow> bool" where
  "project_enabled syncProjects projectConfig =
     (syncProjects \<and>
      (case projectConfig of
         None \<Rightarrow> False
       | Some c \<Rightarrow> enabled c \<and> truthy_num (project_number c) \<and> truthy_opt (owner c)))"

text \<open>
  Lines 144 to 164. When \<open>getProjectId\<close> throws, \<open>projectFields\<close> has already been
  assigned and only \<open>projectId\<close> stays null.
\<close>

definition load_project_data :: "env \<Rightarrow> bool \<Rightarrow> ProjectConfig option \<Rightarrow> project_ctx \<times> event list" where
  "load_project_data e syncProjects projectConfig =
     (case projectConfig of
        None \<Rightarrow> (\<lparr>ctx_fields = None, ctx_projectId = None, ctx_number = 0\<rparr>, [])
      | Some c \<Rightarrow>
          if project_enabled syncProjects projectConfig then
            (case getProjectFields e (cached_fields c) (fields_cached_at c) of
               Inl err \<Rightarrow>
                 (\<lparr>ctx_fields = None, ctx_projectId = None, ctx_number = 0\<rparr>,
                  [WarnProjectData err])
             | Inr (flds, cached) \<Rightarrow>
                 (case getProjectId e of
                    Inl err \<Rightarrow>
                      (\<lparr>ctx_fields = Some flds, ctx_projectId = None,
                        ctx_number = (case project_number c of Some k \<Rightarrow> k | None \<Rightarrow> 0)\<rparr>,
                       [WarnProjectData err])
                  | Inr pid \<Rightarrow>
                      (\<lparr>ctx_fields = Some flds, ctx_projectId = Some pid,
                        ctx_number = (case project_number c of Some k \<Rightarrow> k | None \<Rightarrow> 0)\<rparr>,
                       [])))
          else (\<lparr>ctx_fields = None, ctx_projectId = None, ctx_number = 0\<rparr>, []))"

definition abort :: "error \<Rightarrow> event list \<Rightarrow> nat \<Rightarrow> run" where
  "abort err tr k = \<lparr>r_error = Some err, r_trace = tr, r_saved = None, r_updated = k\<rparr>"

text \<open>Lines 268 to 274: the state is written back only when this is not a dry run.\<close>

definition finish_up :: "env \<Rightarrow> bool \<Rightarrow> up_st \<Rightarrow> run" where
  "finish_up e dryRun s =
     (if \<not> dryRun then
        (if writeState_ok e then
           \<lparr>r_error = None,
            r_trace = st_trace s @ [WriteState (st_issues s), Summary dryRun (st_updated s)],
            r_saved = Some (st_issues s),
            r_updated = st_updated s\<rparr>
         else abort WriteStateError (st_trace s @ [WriteState (st_issues s)]) (st_updated s))
      else
        \<lparr>r_error = None,
         r_trace = st_trace s @ [Summary dryRun (st_updated s)],
         r_saved = None,
         r_updated = st_updated s\<rparr>)"

text \<open>Lines 140 to 164: the project data of the run and the trace of getting it.\<close>

definition syncUp_setup :: "env \<Rightarrow> bool \<Rightarrow> project_ctx \<times> event list" where
  "syncUp_setup e syncProjects =
     (case (if syncProjects then getOrCreateProjectConfig e else (None, [])) of
        (projectConfig, tr1) \<Rightarrow>
          (case load_project_data e syncProjects projectConfig of
             (ctx, tr2) \<Rightarrow> (ctx, tr1 @ tr2)))"

text \<open>The result is \<open>None\<close> when the listing of the remote issues never ends.\<close>

definition syncUp :: "env \<Rightarrow> bool \<Rightarrow> bool \<Rightarrow> bool \<Rightarrow> run option" where
  "syncUp e force dryRun syncProjects =
     (case getCurrentRepo e of
        Inl err \<Rightarrow> Some (abort err [LogStart] 0)
      | Inr repo \<Rightarrow>
          (case fetchIssues e True None of
             None \<Rightarrow> None
           | Some (Inl err, tr) \<Rightarrow> Some (abort err ([LogStart, LogRepo repo] @ tr) 0)
           | Some (Inr remoteIssues, tr) \<Rightarrow>
               (case syncUp_setup e syncProjects of
                  (ctx, tr1) \<Rightarrow>
                    (case syncUp_loop e force dryRun ctx remoteIssues (loadAllLocalIssues e)
                            \<lparr>st_issues = loadSyncState e, st_updated = 0, st_tick = 0,
                             st_trace = [LogStart, LogRepo repo] @ tr @ tr1\<rparr> of
                       Inl (err, s) \<Rightarrow> Some (abort err (st_trace s) (st_updated s))
                     | Inr s \<Rightarrow> Some (finish_up e dryRun s)))))"

section \<open>The sync engine: conflict detection (detectConflicts)\<close>

definition conflict_of :: "Issue list \<Rightarrow> SyncState \<Rightarrow> Issue \<Rightarrow> ConflictInfo list" where
  "conflict_of remoteIssues st local =
     (case remoteMap remoteIssues (number local) of
        None \<Rightarrow> []
      | Some remote \<Rightarrow>
          (case map_of st (number local) of
             None \<Rightarrow> []
           | Some syncInfo \<Rightarrow>
               if updated_at local > last_synced_at syncInfo
                  \<and> updated_at remote > github_updated_at syncInfo
               then [\<lparr> c_number = number local,
                       c_title = title local,
                       github_updated = updated_at remote,
                       local_updated = updated_at local,
                       last_synced = last_synced_at syncInfo \<rparr>]
               else []))"

definition detectConflicts :: "env \<Rightarrow> (error + ConflictInfo list) option" where
  "detectConflicts e =
     (case getCurrentRepo e of
        Inl err \<Rightarrow> Some (Inl err)
      | Inr repo \<Rightarrow>
          (case fetchIssues e True None of
             None \<Rightarrow> None
           | Some (Inl err, tr) \<Rightarrow> Some (Inl err)
           | Some (Inr remoteIssues, tr) \<Rightarrow>
               Some (Inr (concat (map (conflict_of remoteIssues (loadSyncState e))
                                      (loadAllLocalIssues e))))))"

section \<open>The sync engine: pull (syncDown)\<close>

text \<open>\<open>Object.values(state.issues)\<close>: one record per key.\<close>

definition object_values :: "SyncState \<Rightarrow> SyncRecord list" where
  "object_values st = map snd (AList.clearjunk st)"

text \<open>
  Lines 40 to 47: the time of the last sync for the incremental fetch.
  \<open>filter(Boolean)\<close> drops the empty strings, \<open>sort().pop()\<close> takes the greatest.
\<close>

definition lastSync_of :: "SyncState \<Rightarrow> bool \<Rightarrow> string option" where
  "lastSync_of st fullSync =
     (if \<not> fullSync then
        (let syncTimes = filter truthy (map last_synced_at (object_values st))
         in if length syncTimes > 0 then Some (last (sort syncTimes)) else None)
      else None)"

record down_st =
  d_issues :: SyncState
  d_tick :: nat
  d_trace :: "event list"

text \<open>
  Lines 64 to 95, inside the \<open>try\<close>: the schema, the refreshed cache, and the items of
  the fetched issues. The result is \<open>projectFields\<close>, \<open>projectItemsMap\<close>, the clock
  reads used so far and the trace. A throw leaves what was assigned before it.
\<close>

definition fetch_project_data ::
  "env \<Rightarrow> ProjectConfig \<Rightarrow> nat list \<Rightarrow> nat
   \<Rightarrow> (ProjectField list option \<times> (nat \<times> ProjectItem) list option) \<times> nat \<times> event list" where
  "fetch_project_data e c issueNumbers tick =
     (case getProjectFields e (cached_fields c) (fields_cached_at c) of
        Inl err \<Rightarrow> ((None, None), tick, [WarnProjectData err])
      | Inr (flds, cached) \<Rightarrow>
          if cached_fields c = None \<or> \<not> cached then
            (if writeConfig_ok e then
               (case getProjectItemsForIssues e
                       (case project_number c of Some k \<Rightarrow> k | None \<Rightarrow> 0) issueNumbers of
                  (itemsMap, tr) \<Rightarrow>
                    ((Some flds, Some itemsMap), tick + 1,
                     [WriteConfig (c\<lparr>cached_fields := Some flds,
                                     fields_cached_at := Some (now e tick)\<rparr>)]
                     @ tr @ [LogProjectData (length itemsMap)]))
             else
               ((Some flds, None), tick + 1,
                [WriteConfig (c\<lparr>cached_fields := Some flds,
                                fields_cached_at := Some (now e tick)\<rparr>),
                 WarnProjectData WriteConfigError]))
          else
            (case getProjectItemsForIssues e
                    (case project_number c of Some k \<Rightarrow> k | None \<Rightarrow> 0) issueNumbers of
               (itemsMap, tr) \<Rightarrow>
                 ((Some flds, Some itemsMap), tick, tr @ [LogProjectData (length itemsMap)])))"

definition set_project_item ::
  "nat \<Rightarrow> ProjectFieldValue \<Rightarrow> string \<Rightarrow> SyncState \<Rightarrow> SyncState" where
  "set_project_item n itemId t st =
     (case map_of st n of
        None \<Rightarrow> st
      | Some r \<Rightarrow>
          AList.update n (r\<lparr>project_item_id := Some itemId,
                            project_fields_updated_at := Some t\<rparr>) st)"

text \<open>Lines 99 to 114: the field values and the item link of an issue that has an item.\<close>

definition attach_project_fields ::
  "env \<Rightarrow> ProjectField list option \<Rightarrow> (nat \<times> ProjectItem) list option \<Rightarrow> Issue \<Rightarrow> down_st
   \<Rightarrow> Issue \<times> down_st" where
  "attach_project_fields e projectFields projectItemsMap issue s =
     (case projectItemsMap of
        None \<Rightarrow> (issue, s)
      | Some itemsMap \<Rightarrow>
      (case projectFields of
        None \<Rightarrow> (issue, s)
      | Some flds \<Rightarrow>
      (case map_of itemsMap (number issue) of
        None \<Rightarrow> (issue, s)
      | Some projectItem \<Rightarrow>
          (let s1 = (case map_of (d_issues s) (number issue) of
                       None \<Rightarrow>
                         s\<lparr>d_issues :=
                             AList.update (number issue)
                               \<lparr> github_updated_at = updated_at issue,
                                 local_updated_at = updated_at issue,
                                 last_synced_at = now e (d_tick s),
                                 project_item_id = None,
                                 project_fields_updated_at = None \<rparr>
                               (d_issues s),
                           d_tick := d_tick s + 1\<rparr>
                     | Some r \<Rightarrow> s)
           in (issue\<lparr>project_fields := Some (extractProjectFieldValues projectItem flds)\<rparr>,
               s1\<lparr>d_issues :=
                     set_project_item (number issue) (item_id projectItem) (now e (d_tick s1))
                       (d_issues s1),
                   d_tick := d_tick s1 + 1\<rparr>)))))"

text \<open>
  Lines 118 to 123: \<open>{...state.issues[issue.number], github_updated_at, local_updated_at,
  last_synced_at}\<close> keeps the item link of the record that was there.
\<close>

definition merge_record :: "SyncRecord option \<Rightarrow> string \<Rightarrow> string \<Rightarrow> SyncRecord" where
  "merge_record old u t =
     \<lparr> github_updated_at = u,
       local_updated_at = u,
       last_synced_at = t,
       project_item_id = (case old of None \<Rightarrow> None | Some r \<Rightarrow> project_item_id r),
       project_fields_updated_at =
         (case old of None \<Rightarrow> None | Some r \<Rightarrow> project_fields_updated_at r) \<rparr>"

text \<open>The body of the loop over \<open>remoteIssues\<close>. A failed \<open>saveIssue\<close> throws out of \<open>syncDown\<close>.\<close>

definition syncDown_issue ::
  "env \<Rightarrow> ProjectField list option \<Rightarrow> (nat \<times> ProjectItem) list option \<Rightarrow> Issue \<Rightarrow> down_st
   \<Rightarrow> (error \<times> down_st) + down_st" where
  "syncDown_issue e projectFields projectItemsMap issue0 s =
     (case attach_project_fields e projectFields projectItemsMap issue0 s of
        (issue, s1) \<Rightarrow>
          if writeIssue_ok e issue then
            Inr (s1\<lparr>d_issues :=
                      AList.update (number issue)
                        (merge_record (map_of (d_issues s1) (number issue))
                           (updated_at issue) (now e (d_tick s1)))
                        (d_issues s1),
                    d_tick := d_tick s1 + 1,
                    d_trace := d_trace s1 @ [WriteIssue issue]\<rparr>)
          else Inl (WriteIssueError (number issue),
                    s1\<lparr>d_trace := d_trace s1 @ [WriteIssue issue]\<rparr>))"

fun syncDown_loop ::
  "env \<Rightarrow> ProjectField list option \<Rightarrow> (nat \<times> ProjectItem) list option \<Rightarrow> Issue list \<Rightarrow> down_st
   \<Rightarrow> (error \<times> down_st) + down_st" where
  "syncDown_loop e projectFields projectItemsMap [] s = Inr s"
| "syncDown_loop e projectFields projectItemsMap (issue # rest) s =
     (case syncDown_issue e projectFields projectItemsMap issue s of
        Inl x \<Rightarrow> Inl x
      | Inr s1 \<Rightarrow> syncDown_loop e projectFields projectItemsMap rest s1)"

text \<open>Lines 52 to 95: the project data of the run and the state the loop starts from.\<close>

definition syncDown_init ::
  "env \<Rightarrow> bool \<Rightarrow> Issue list \<Rightarrow> event list
   \<Rightarrow> (ProjectField list option \<times> (nat \<times> ProjectItem) list option) \<times> down_st" where
  "syncDown_init e syncProjects remoteIssues tr0 =
     (case (if syncProjects then getOrCreateProjectConfig e else (None, [])) of
        (projectConfig, tr1) \<Rightarrow>
          (case projectConfig of
             None \<Rightarrow>
               ((None, None),
                \<lparr>d_issues = loadSyncState e, d_tick = 0, d_trace = tr0 @ tr1\<rparr>)
           | Some c \<Rightarrow>
               if project_enabled syncProjects projectConfig then
                 (case fetch_project_data e c (map number remoteIssues) 0 of
                    (pd, tick, tr2) \<Rightarrow>
                      (pd, \<lparr>d_issues = loadSyncState e, d_tick = tick,
                            d_trace = tr0 @ tr1 @ tr2\<rparr>))
               else
                 ((None, None),
                  \<lparr>d_issues = loadSyncState e, d_tick = 0, d_trace = tr0 @ tr1\<rparr>)))"

definition finish_down :: "env \<Rightarrow> down_st \<Rightarrow> run" where
  "finish_down e s =
     (if writeState_ok e then
        \<lparr>r_error = None,
         r_trace = d_trace s @ [WriteState (d_issues s), LogComplete],
         r_saved = Some (d_issues s),
         r_updated = 0\<rparr>
      else abort WriteStateError (d_trace s @ [WriteState (d_issues s)]) 0)"

text \<open>The result is \<open>None\<close> when the listing of the remote issues never ends.\<close>

definition syncDown :: "env \<Rightarrow> bool \<Rightarrow> bool \<Rightarrow> bool \<Rightarrow> run option" where
  "syncDown e includeClosed fullSync syncProjects =
     (case getCurrentRepo e of
        Inl err \<Rightarrow> Some (abort err [LogStart] 0)
      | Inr repo \<Rightarrow>
          if \<not> mkdir_ok e then Some (abort MkdirError [LogStart, LogRepo repo] 0)
          else
            (case fetchIssues e includeClosed (lastSync_of (loadSyncState e) fullSync) of
               None \<Rightarrow> None
             | Some (Inl err, tr) \<Rightarrow> Some (abort err ([LogStart, LogRepo repo] @ tr) 0)
             | Some (Inr remoteIssues, tr) \<Rightarrow>
                 (case syncDown_init e syncProjects remoteIssues
                         ([LogStart, LogRepo repo] @ tr @ [LogFetched (length remoteIssues)]) of
                    ((projectFields, projectItemsMap), s0) \<Rightarrow>
                      (case syncDown_loop e projectFields projectItemsMap remoteIssues s0 of
                         Inl (err, s) \<Rightarrow> Some (abort err (d_trace s) 0)
                       | Inr s \<Rightarrow> Some (finish_down e s)))))"

section \<open>The local issue store (storage.ts)\<close>

text \<open>
  An issue file is kept as gray-matter reads a file that \<open>saveIssue\<close> wrote: the
  front matter and the content after it. The YAML of the front matter is taken to
  store its values faithfully. The keys that \<open>loadIssue\<close> reads with a default are
  optional.
\<close>

record frontmatter =
  fm_number :: nat
  fm_title :: string
  fm_state :: issue_state
  fm_labels :: "string list option"
  fm_assignees :: "string list option"
  fm_milestone :: "string option"
  fm_created_at :: string
  fm_updated_at :: string
  fm_closed_at :: "string option"
  fm_project_fields :: "(string \<times> ProjectFieldValue) list option"

record md_file =
  file_data :: frontmatter
  file_content :: string

text \<open>The files of \<open>.issync/issues\<close>, by the number in their name.\<close>

type_synonym issue_store = "nat \<Rightarrow> md_file option"

text \<open>
  gray-matter is a library outside the repository; what follows is its reading of a
  string. A string that opens with the delimiter \<open>---\<close>, not followed by a fourth
  hyphen, has a front-matter block. The rest of the opening line names the language of
  the block (\<open>language_raw\<close>: the text before the first line break, and all but the
  last character when there is no line break). The block runs to the first line that
  begins with \<open>---\<close>, or to the end of the string when no line does; the content is what
  follows that closing delimiter and the line break after it, and is empty when the
  block is not closed.
\<close>

fun index_of :: "string \<Rightarrow> string \<Rightarrow> nat option" where
  "index_of sub [] = (if sub = [] then Some 0 else None)"
| "index_of sub (c # cs) =
     (if take (length sub) (c # cs) = sub then Some 0 else map_option Suc (index_of sub cs))"

text \<open>\<open>str.search(/\r?\n/)\<close>.\<close>

fun line_break :: "string \<Rightarrow> nat option" where
  "line_break [] = None"
| "line_break (c # cs) =
     (if c = CHR 0x0A \<or> (c = CHR 0x0D \<and> take 1 cs = [CHR 0x0A]) then Some 0
      else map_option Suc (line_break cs))"

definition has_matter :: "string \<Rightarrow> bool" where
  "has_matter str = (take 3 str = ''---'' \<and> take 1 (drop 3 str) \<noteq> ''-'')"

definition language_raw :: "string \<Rightarrow> string" where
  "language_raw str = (case line_break str of Some i \<Rightarrow> take i str | None \<Rightarrow> butlast str)"

definition strip_first :: "char \<Rightarrow> string \<Rightarrow> string" where
  "strip_first c str = (if take 1 str = [c] then drop 1 str else str)"

record matter_file =
  mf_language :: string
  mf_block :: "string option"
  mf_content :: string

definition matter_parse :: "string \<Rightarrow> matter_file" where
  "matter_parse input =
     (if \<not> has_matter input then
        \<lparr>mf_language = [], mf_block = None, mf_content = input\<rparr>
      else
        (let str0 = drop 3 input;
             len = length str0;
             raw = language_raw str0;
             name = trim raw;
             str = (if truthy name then drop (length raw) str0 else str0);
             closeIndex = (case index_of (CHR 0x0A # ''---'') str of
                             None \<Rightarrow> len
                           | Some i \<Rightarrow> i)
         in \<lparr>mf_language = name,
             mf_block = Some (take closeIndex str),
             mf_content =
               (if closeIndex = len then []
                else strip_first (CHR 0x0A)
                       (strip_first (CHR 0x0D) (drop (closeIndex + 4) str)))\<rparr>))"

text \<open>
  \<open>matter.stringify(body, data)\<close> reads a string body in that way before it writes:
  the content of the file is the content left by the reading, ended with a newline
  when it has none, and the data read from the block lie under \<open>data\<close>
  (\<open>Object.assign({}, file.data, data)\<close>). The engine of the block's language is a
  collaborator: \<open>engine language block\<close> is its failure (a language without a
  registered engine, a block it cannot read or write), or the \<open>project_fields\<close> entry
  of the data it reads, none for a blank block. \<open>saveIssue\<close> sets every other key
  that \<open>loadIssue\<close> reads, so no other key of the block is seen again.
\<close>

type_synonym engine = "string \<Rightarrow> string \<Rightarrow> error + (string \<times> ProjectFieldValue) list option"

definition newline :: "string \<Rightarrow> string" where
  "newline str = (if str \<noteq> [] \<and> last str = CHR 0x0A then str else str @ [CHR 0x0A])"

definition matter_stringify :: "engine \<Rightarrow> string \<Rightarrow> frontmatter \<Rightarrow> error + md_file" where
  "matter_stringify engine str fm =
     (let file = matter_parse str in
      case mf_block file of
        None \<Rightarrow> Inr \<lparr>file_data = fm, file_content = newline (mf_content file)\<rparr>
      | Some block \<Rightarrow>
          (case engine (mf_language file) block of
             Inl err \<Rightarrow> Inl err
           | Inr pf \<Rightarrow>
               Inr \<lparr>file_data =
                      fm\<lparr>fm_project_fields :=
                           (case fm_project_fields fm of None \<Rightarrow> pf | Some own \<Rightarrow> Some own)\<rparr>,
                    file_content = newline (mf_content file)\<rparr>))"

text \<open>
  \<open>saveIssue\<close>: \<open>project_fields\<close> enters the front matter when it is present and not
  empty. The write replaces the file of the issue.
\<close>

definition saveIssue :: "engine \<Rightarrow> bool \<Rightarrow> Issue \<Rightarrow> issue_store \<Rightarrow> error + issue_store" where
  "saveIssue engine write_ok issue store =
     (let fm = \<lparr> fm_number = number issue,
                 fm_title = title issue,
                 fm_state = state issue,
                 fm_labels = Some (labels issue),
                 fm_assignees = Some (assignees issue),
                 fm_milestone = milestone issue,
                 fm_created_at = created_at issue,
                 fm_updated_at = updated_at issue,
                 fm_closed_at = closed_at issue,
                 fm_project_fields =
                   (case project_fields issue of
                      None \<Rightarrow> None
                    | Some pf \<Rightarrow> if length pf > 0 then Some pf else None) \<rparr>
      in case matter_stringify engine (body issue) fm of
           Inl err \<Rightarrow> Inl err
         | Inr file \<Rightarrow>
             if write_ok then Inr (store(number issue \<mapsto> file))
             else Inl (WriteIssueError (number issue)))"

text \<open>\<open>loadIssue\<close>: null when the file cannot be read or parsed.\<close>

definition loadIssue :: "issue_store \<Rightarrow> nat \<Rightarrow> Issue option" where
  "loadIssue store n =
     (case store n of
        None \<Rightarrow> None
      | Some f \<Rightarrow>
          Some \<lparr> number = fm_number (file_data f),
                 title = fm_title (file_data f),
                 body = trim (file_content f),
                 state = fm_state (file_data f),
                 labels = (case fm_labels (file_data f) of Some ls \<Rightarrow> ls | None \<Rightarrow> []),
                 assignees = (case fm_assignees (file_data f) of Some as \<Rightarrow> as | None \<Rightarrow> []),
                 milestone =
                   (if truthy_opt (fm_milestone (file_data f)) then fm_milestone (file_data f)
                    else None),
                 created_at = fm_created_at (file_data f),
                 updated_at = fm_updated_at (file_data f),
                 closed_at =
                   (if truthy_opt (fm_closed_at (file_data f)) then fm_closed_at (file_data f)
                    else None),
                 project_fields = fm_project_fields (file_data f) \<rparr>)"

section \<open>Auxiliary notions for the proofs\<close>

text \<open>\<open>about n ev\<close>: the event concerns issue \<open>n\<close>.\<close>

fun about :: "nat \<Rightarrow> event \<Rightarrow> bool" where
  "about n (SkipNotFound k) = (k = n)"
| "about n (SkipNoHistory k) = (k = n)"
| "about n (Conflict k) = (k = n)"
| "about n (WouldUpdate k ks) = (k = n)"
| "about n (UpdateIssue k u) = (k = n)"
| "about n (WouldUpdateField k f r l) = (k = n)"
| "about n (Mutate k m) = (k = n)"
| "about n (FieldUpdated k f) = (k = n)"
| "about n (WarnFieldUpdate k f err) = (k = n)"
| "about n (QueryItems ks) = (n \<in> set ks)"
| "about n (WriteIssue i) = (number i = n)"
| "about n ev = False"

definition ext_rel :: "nat set \<Rightarrow> up_st \<Rightarrow> up_st \<Rightarrow> bool" where
  "ext_rel N s s' =
     ((\<exists>evs. st_trace s' = st_trace s @ evs \<and> (\<forall>ev\<in>set evs. \<forall>m. about m ev \<longrightarrow> m \<in> N)) \<and>
      (\<forall>k. k \<notin> N \<longrightarrow> map_of (st_issues s') k = map_of (st_issues s) k) \<and>
      st_updated s \<le> st_updated s' \<and> st_tick s \<le> st_tick s')"

fun field_event :: "event \<Rightarrow> bool" where
  "field_event (QueryItems ks) = True"
| "field_event (WarnBatch err) = True"
| "field_event (WouldUpdateField k f r l) = True"
| "field_event (Mutate k m) = True"
| "field_event (FieldUpdated k f) = True"
| "field_event (WarnFieldUpdate k f err) = True"
| "field_event ev = False"

text \<open>
  The calls that change a local file (the configuration file, an issue file, the sync
  state file) or the remote side.
\<close>

fun mutating :: "event \<Rightarrow> bool" where
  "mutating (WriteConfig c) = True"
| "mutating (WriteIssue i) = True"
| "mutating (WriteState st) = True"
| "mutating (UpdateIssue n u) = True"
| "mutating (Mutate n m) = True"
| "mutating ev = False"

text \<open>\<open>quiet s s'\<close>: from \<open>s\<close> to \<open>s'\<close> only reports were added and the state is the same.\<close>

definition quiet :: "up_st \<Rightarrow> up_st \<Rightarrow> bool" where
  "quiet s s' =
     ((\<exists>evs. st_trace s' = st_trace s @ evs \<and> filter mutating evs = []) \<and>
      st_issues s' = st_issues s)"

text \<open>The guard of the custom-field step (line 228), and the item a mutation addresses.\<close>

definition fields_step :: "project_ctx \<Rightarrow> SyncRecord \<Rightarrow> Issue \<Rightarrow> bool" where
  "fields_step ctx syncInfo local =
     (ctx_fields ctx \<noteq> None \<and> truthy_opt (ctx_projectId ctx)
      \<and> truthy_value_opt (project_item_id syncInfo) \<and> project_fields local \<noteq> None)"

fun mutation_item :: "mutation \<Rightarrow> ProjectFieldValue" where
  "mutation_item (ClearField p i f) = i"
| "mutation_item (SetText p i f v) = i"
| "mutation_item (SetNumber p i f v) = i"
| "mutation_item (SetDate p i f v) = i"
| "mutation_item (SetSingleSelect p i f x) = i"
| "mutation_item (SetIteration p i f x) = i"

text \<open>The three timestamps of a record, and states that agree on them.\<close>

definition core :: "SyncRecord \<Rightarrow> string \<times> string \<times> string" where
  "core r = (github_updated_at r, local_updated_at r, last_synced_at r)"

definition same_core :: "SyncState \<Rightarrow> SyncState \<Rightarrow> bool" where
  "same_core st st' = (\<forall>k. map_option core (map_of st' k) = map_option core (map_of st k))"

text \<open>The condition under which an iteration of the push loop reaches the update (lines 173 to 208).\<close>

definition would_update :: "(nat \<Rightarrow> string option) \<Rightarrow> bool \<Rightarrow> Issue list \<Rightarrow> SyncState \<Rightarrow> Issue \<Rightarrow> bool" where
  "would_update mtime force R st local =
     (case remoteMap R (number local) of
        None \<Rightarrow> False
      | Some remote \<Rightarrow>
          (case map_of st (number local) of
             None \<Rightarrow> False
           | Some syncInfo \<Rightarrow>
               \<not> (remoteModified remote syncInfo
                  \<and> localModified (mtime (number local)) syncInfo \<and> \<not> force)
               \<and> localModified (mtime (number local)) syncInfo
               \<and> update_keys (diff_updates local remote) \<noteq> []))"

fun is_update :: "event \<Rightarrow> bool" where
  "is_update (UpdateIssue n u) = True"
| "is_update ev = False"





text \<open>Kinds of events of a pull, and the issues a trace wrote to the local store.\<close>

fun is_list :: "event \<Rightarrow> bool" where
  "is_list (ListIssues p) = True"
| "is_list ev = False"

fun is_write_state :: "event \<Rightarrow> bool" where
  "is_write_state (WriteState st) = True"
| "is_write_state ev = False"

fun written :: "event list \<Rightarrow> Issue list" where
  "written [] = []"
| "written (WriteIssue i # evs) = i # written evs"
| "written (ev # evs) = written evs"

fun cfg_event :: "event \<Rightarrow> bool" where
  "cfg_event (WriteConfig c) = True"
| "cfg_event (WarnConfig err) = True"
| "cfg_event (WarnProjectData err) = True"
| "cfg_event (QueryItems b) = True"
| "cfg_event (WarnBatch err) = True"
| "cfg_event (LogProjectData n) = True"
| "cfg_event ev = False"

text \<open>The non-empty \<open>last_synced_at\<close> values of the records of a state.\<close>

definition synced_times :: "SyncState \<Rightarrow> string set" where
  "synced_times st = {t \<in> last_synced_at ` ran (map_of st). truthy t}"

text \<open>
  \<open>loadIssue(issue.number)\<close> after \<open>saveIssue(issue)\<close> on an empty store, with an
  engine that reads every block and finds no \<open>project_fields\<close> in it.
\<close>

definition plain_engine :: engine where
  "plain_engine language block = Inr None"

definition save_then_load :: "Issue \<Rightarrow> Issue option" where
  "save_then_load issue =
     (case saveIssue plain_engine True issue Map.empty of
        Inl err \<Rightarrow> None
      | Inr store \<Rightarrow> loadIssue store (number issue))"

section \<open>A concrete working copy\<close>

text \<open>
  Three local issues after a pull: the remote side changed issue 1, the file of
  issue 2 was edited, and issue 3 changed on both sides. Issues 1 and 2 are linked to
  an item of project 7 whose field Priority is Low remotely and High locally.
\<close>

definition priority_field :: ProjectField where
  "priority_field =
     \<lparr> field_id = ''F_PRIO'', field_name = ''Priority'', dataType = SINGLE_SELECT,
       options = Some [\<lparr>opt_id = ''O_HIGH'', opt_name = ''High''\<rparr>,
                       \<lparr>opt_id = ''O_LOW'', opt_name = ''Low''\<rparr>] \<rparr>"

definition demo_config :: ProjectConfig where
  "demo_config =
     \<lparr> project_number = Some 7, owner = Some ''acme'', enabled = True,
       cached_fields = Some [priority_field],
       fields_cached_at = Some ''2024-03-01T09:00:00.000Z'' \<rparr>"

definition demo_issue :: "nat \<Rightarrow> string \<Rightarrow> string \<Rightarrow> (string \<times> ProjectFieldValue) list option \<Rightarrow> Issue" where
  "demo_issue n t u pf =
     \<lparr> number = n, title = t, body = ''text'', state = Open, labels = [''bug''],
       assignees = [], milestone = None, created_at = ''2023-12-01T00:00:00Z'',
       updated_at = u, closed_at = None, project_fields = pf \<rparr>"

text \<open>The remote form of such an issue; the remote body has a trailing newline.\<close>

definition demo_raw :: "nat \<Rightarrow> string \<Rightarrow> string \<Rightarrow> raw_issue" where
  "demo_raw n t u =
     \<lparr> raw_number = n, raw_title = t, raw_body = Some (''text'' @ [CHR 0x0A]),
       raw_state = Open, raw_labels = [LabelObject ''bug''], raw_assignees = Some [],
       raw_milestone = None, raw_created_at = ''2023-12-01T00:00:00Z'',
       raw_updated_at = u, raw_closed_at = None, raw_pull_request = False \<rparr>"

definition demo_record :: "string option \<Rightarrow> SyncRecord" where
  "demo_record item =
     \<lparr> github_updated_at = ''2024-01-01T00:00:00Z'',
       local_updated_at = ''2024-01-01T00:00:00Z'',
       last_synced_at = ''2024-01-01T00:00:05.000Z'',
       project_item_id = map_option PStr item,
       project_fields_updated_at = map_option (\<lambda>i. ''2024-01-01T00:00:05.000Z'') item \<rparr>"

definition demo_raw_item :: raw_item where
  "demo_raw_item =
     \<lparr> ri_id = ''ITEM'', ri_project_number = Some 7,
       ri_field_values = Some [\<lparr> fv_field_name = Some ''Priority'', fv_name = Some ''Low'',
                                  fv_text = None, fv_date = None, fv_number = None,
                                  fv_title = None \<rparr>] \<rparr>"

definition demo :: env where
  "demo =
     \<lparr> getCurrentRepo = Inr ''acme/widgets'',
       mkdir_ok = True,
       loadAllLocalIssues =
         [demo_issue 1 ''One'' ''2024-01-01T00:00:00Z'' (Some [(''Priority'', PStr ''High'')]),
          demo_issue 2 ''Two (edited)'' ''2024-01-01T00:00:00Z'' (Some [(''Priority'', PStr ''High'')]),
          demo_issue 3 ''Three (edited)'' ''2024-01-01T00:00:00Z'' None],
       loadSyncState =
         [(1, demo_record (Some ''ITEM'')), (2, demo_record (Some ''ITEM'')), (3, demo_record None)],
       listForRepo = (\<lambda>p.
         if p_page p = 1 then
           Inr [demo_raw 3 ''Three (remote)'' ''2024-02-10T00:00:00Z'',
                demo_raw 1 ''One (remote)'' ''2024-02-10T00:00:00Z'',
                demo_raw 2 ''Two'' ''2024-01-01T00:00:00Z'']
         else Inr []),
       getLocalFileModTime = (\<lambda>n.
         if n = 1 then Some ''2024-01-01T00:00:04.000Z''
         else if n = 2 \<or> n = 3 then Some ''2024-02-20T00:00:00.000Z''
         else None),
       now = (\<lambda>k. if k < 2 then ''2024-03-01T10:00:00.000Z'' else ''2024-03-01T10:00:01.000Z''),
       config_project = Some demo_config,
       detectProjectForRepo = None,
       writeConfig_ok = True,
       fields_cache_fresh = True,
       queryProjectFields = Inr [priority_field],
       getProjectId = Inr ''PROJECT'',
       graphql_items = (\<lambda>batch. Inr (map (\<lambda>n. Some [demo_raw_item]) batch)),
       graphql_mutation_ok = (\<lambda>m. True),
       updateIssue_ok = (\<lambda>n u. True),
       writeIssue_ok = (\<lambda>i. True),
       writeState_ok = True \<rparr>"

text \<open>
  The same working copy after the push without custom fields: the saved state, and a
  remote side on which issue 2 carries the pushed title.
\<close>

definition demo_second :: env where
  "demo_second =
     demo\<lparr> loadSyncState :=
             [(1, demo_record (Some ''ITEM'')),
              (2, \<lparr> github_updated_at = ''2024-03-01T10:00:00.000Z'',
                    local_updated_at = ''2024-01-01T00:00:00Z'',
                    last_synced_at = ''2024-03-01T10:00:00.000Z'',
                    project_item_id = None,
                    project_fields_updated_at = None \<rparr>),
              (3, demo_record None)],
           listForRepo := (\<lambda>p.
             if p_page p = 1 then
               Inr [demo_raw 2 ''Two (edited)'' ''2024-03-01T10:00:00Z'',
                    demo_raw 3 ''Three (remote)'' ''2024-02-10T00:00:00Z'',
                    demo_raw 1 ''One (remote)'' ''2024-02-10T00:00:00Z'']
             else Inr []) \<rparr>"


text \<open>
  The same working copy with no project in the configuration file, in a repository
  whose project is found by detection.
\<close>

definition demo_detected :: ProjectConfig where
  "demo_detected =
     \<lparr> project_number = Some 7, owner = Some ''acme'', enabled = True,
       cached_fields = None, fields_cached_at = None \<rparr>"

definition demo_detect :: env where
  "demo_detect = demo\<lparr> config_project := None, detectProjectForRepo := Some demo_detected \<rparr>"

text \<open>
  A remote issue whose body opens with a horizontal rule of Markdown, and the issue
  that \<open>fetchIssues\<close> makes of it.
\<close>

definition demo_rule_raw :: raw_issue where
  "demo_rule_raw =
     (demo_raw 4 ''Four'' ''2024-01-01T00:00:00Z'')
       \<lparr>raw_body := Some (''---'' @ [CHR 0x0A] @ ''Some text'')\<rparr>"

definition demo_rule :: Issue where
  "demo_rule =
     (demo_issue 4 ''Four'' ''2024-01-01T00:00:00Z'' None)
       \<lparr>body := ''---'' @ [CHR 0x0A] @ ''Some text''\<rparr>"

section \<open>Lemmas on the push loop\<close>

lemma items_loop_trace:
  "\<exists>evs. snd (items_loop e pn ns i acc) = snd acc @ evs \<and>
         (\<forall>ev\<in>set evs. (\<exists>b. ev = QueryItems b \<and> set b \<subseteq> set ns) \<or> (\<exists>err. ev = WarnBatch err))"
proof (induction e pn ns i acc rule: items_loop.induct)
  case (1 e pn ns i acc)
  show ?case
  proof (cases "i < length ns")
    case False
    then show ?thesis by (subst items_loop.simps) simp
  next
    case True
    have sub: "set (slice ns i (i + batchSize)) \<subseteq> set ns"
      unfolding slice_def by (meson set_take_subset set_drop_subset subset_trans)
    show ?thesis
    proof (cases "graphql_items e (slice ns i (i + batchSize))")
      case (Inl err)
      from 1(1)[OF True refl Inl] obtain evs where
        "snd (items_loop e pn ns (i + batchSize) (fst acc, snd acc @ [QueryItems (slice ns i (i + batchSize)), WarnBatch err])) = (snd acc @ [QueryItems (slice ns i (i + batchSize)), WarnBatch err]) @ evs"
        and "\<forall>ev\<in>set evs. (\<exists>b. ev = QueryItems b \<and> set b \<subseteq> set ns) \<or> (\<exists>err. ev = WarnBatch err)"
        by auto
      then show ?thesis using True Inl sub
        by (subst items_loop.simps) (auto simp: Let_def)
    next
      case (Inr res)
      from 1(2)[OF True refl Inr] obtain evs where
        "snd (items_loop e pn ns (i + batchSize) (fold (process_entry pn res) (List.enumerate 0 (slice ns i (i + batchSize))) (fst acc), snd acc @ [QueryItems (slice ns i (i + batchSize))])) = (snd acc @ [QueryItems (slice ns i (i + batchSize))]) @ evs"
        and "\<forall>ev\<in>set evs. (\<exists>b. ev = QueryItems b \<and> set b \<subseteq> set ns) \<or> (\<exists>err. ev = WarnBatch err)"
        by auto
      then show ?thesis using True Inr sub
        by (subst items_loop.simps) (auto simp: Let_def)
    qed
  qed
qed

lemma getProjectItemForIssue_about:
  assumes "ev \<in> set (snd (getProjectItemForIssue e pn n))" and "about m ev"
  shows "m = n"
proof -
  obtain evs where evs: "snd (items_loop e pn [n] 0 ([], [])) = evs"
    and all: "\<forall>ev\<in>set evs. (\<exists>b. ev = QueryItems b \<and> set b \<subseteq> set [n]) \<or> (\<exists>err. ev = WarnBatch err)"
    using items_loop_trace[of e pn "[n]" 0 "([], [])"] by auto
  have "ev \<in> set evs"
    using assms(1) evs
    by (simp add: getProjectItemForIssue_def getProjectItemsForIssues_def split: prod.splits)
  with all have "(\<exists>b. ev = QueryItems b \<and> set b \<subseteq> set [n]) \<or> (\<exists>err. ev = WarnBatch err)"
    by blast
  with assms(2) show ?thesis by auto
qed

lemma sync_field_about:
  assumes "ev \<in> set (sync_field e dryRun n pid iid fm rf entry)" and "about m ev"
  shows "m = n"
proof -
  obtain fieldName localValue where entry: "entry = (fieldName, localValue)"
    by (cases entry)
  show ?thesis
  proof (cases "fm fieldName")
    case None
    with assms entry show ?thesis by (simp add: sync_field_def)
  next
    case (Some field)
    obtain ms r where u: "updateProjectField e pid iid (field_id field) field localValue = (ms, r)"
      by (cases "updateProjectField e pid iid (field_id field) field localValue")
    show ?thesis
      using assms entry Some u
      by (cases r; cases dryRun) (auto simp: sync_field_def split: if_splits)
  qed
qed

lemma ext_rel_refl: "ext_rel N s s"
  by (simp add: ext_rel_def)

lemma ext_rel_trans:
  assumes "ext_rel A s s1" and "ext_rel B s1 s2"
  shows "ext_rel (A \<union> B) s s2"
proof -
  from assms(1) obtain evs1 where 1: "st_trace s1 = st_trace s @ evs1"
    "\<forall>ev\<in>set evs1. \<forall>m. about m ev \<longrightarrow> m \<in> A" by (auto simp: ext_rel_def)
  from assms(2) obtain evs2 where 2: "st_trace s2 = st_trace s1 @ evs2"
    "\<forall>ev\<in>set evs2. \<forall>m. about m ev \<longrightarrow> m \<in> B" by (auto simp: ext_rel_def)
  have "st_trace s2 = st_trace s @ (evs1 @ evs2)" using 1 2 by simp
  moreover have "\<forall>ev\<in>set (evs1 @ evs2). \<forall>m. about m ev \<longrightarrow> m \<in> A \<union> B"
    using 1 2 by auto
  ultimately have "\<exists>evs. st_trace s2 = st_trace s @ evs \<and> (\<forall>ev\<in>set evs. \<forall>m. about m ev \<longrightarrow> m \<in> A \<union> B)"
    by blast
  moreover have "\<forall>k. k \<notin> A \<union> B \<longrightarrow> map_of (st_issues s2) k = map_of (st_issues s) k"
    using assms by (auto simp: ext_rel_def)
  moreover have "st_updated s \<le> st_updated s2" "st_tick s \<le> st_tick s2"
    using assms by (auto simp: ext_rel_def)
  ultimately show ?thesis unfolding ext_rel_def by blast
qed

lemma ext_rel_emit:
  assumes "\<forall>ev\<in>set evs. \<forall>m. about m ev \<longrightarrow> m \<in> N"
  shows "ext_rel N s (emit evs s)"
  using assms by (auto simp: ext_rel_def emit_def)

lemma push_updates_ext:
  "push_updates e dryRun local upd s = Inr s' \<Longrightarrow> ext_rel {number local} s s'"
  by (auto simp: push_updates_def ext_rel_def emit_def update_conv' split: if_splits)

lemma push_updates_ext_Inl:
  "push_updates e dryRun local upd s = Inl (err, s') \<Longrightarrow> ext_rel {number local} s s'"
  by (auto simp: push_updates_def ext_rel_def emit_def split: if_splits)

lemma stamp_fields_other: "k \<noteq> n \<Longrightarrow> map_of (stamp_fields n t st) k = map_of st k"
  by (simp add: stamp_fields_def update_conv' split: option.splits)

lemma sync_project_fields_ext:
  "ext_rel {number local} s (sync_project_fields e dryRun ctx syncInfo local s)"
proof -
  have q: "\<forall>ev\<in>set (snd (getProjectItemForIssue e (ctx_number ctx) (number local))). \<forall>m. about m ev \<longrightarrow> m \<in> {number local}"
    using getProjectItemForIssue_about by blast
  have f: "\<forall>ev\<in>set (concat (map (sync_field e dryRun (number local) pid iid fm rf) lf)). \<forall>m. about m ev \<longrightarrow> m \<in> {number local}" for pid iid fm rf lf
    using sync_field_about by fastforce
  show ?thesis
    unfolding sync_project_fields_def
    using q f
    by (auto simp: ext_rel_def emit_def Let_def stamp_fields_other split: option.splits prod.splits)
qed

lemma syncUp_issue_ext:
  assumes "syncUp_issue e force dryRun ctx R local s = Inr s'"
  shows "ext_rel {number local} s s'"
proof (cases "remoteMap R (number local)")
  case None
  with assms show ?thesis by (auto simp: syncUp_issue_def intro: ext_rel_emit)
next
  case (Some remote)
  show ?thesis
  proof (cases "map_of (st_issues s) (number local)")
    case None
    with assms Some show ?thesis by (auto simp: syncUp_issue_def intro: ext_rel_emit)
  next
    case (Some syncInfo)
    note rec = this
    consider (conflict) "s' = emit [Conflict (number local)] s"
      | (unmodified) "s' = s"
      | (push) s1 where "push_updates e dryRun local (diff_updates local remote) s = Inr s1"
          "s' = sync_project_fields e dryRun ctx syncInfo local s1"
      using assms \<open>remoteMap R (number local) = Some remote\<close> rec
      by (auto simp: syncUp_issue_def split: if_splits sum.splits)
    then show ?thesis
    proof cases
      case conflict
      then show ?thesis by (auto intro: ext_rel_emit)
    next
      case unmodified
      then show ?thesis by (simp add: ext_rel_refl)
    next
      case push
      have "ext_rel ({number local} \<union> {number local}) s s'"
        unfolding push(2)
        by (rule ext_rel_trans[OF push_updates_ext[OF push(1)] sync_project_fields_ext])
      then show ?thesis by simp
    qed
  qed
qed

lemma syncUp_issue_ext_Inl:
  "syncUp_issue e force dryRun ctx R local s = Inl (err, s') \<Longrightarrow> ext_rel {number local} s s'"
  using push_updates_ext_Inl[of e dryRun local _ s]
  by (auto simp: syncUp_issue_def split: option.splits if_splits sum.splits)

lemma ext_rel_mono: "ext_rel A s s' \<Longrightarrow> A \<subseteq> B \<Longrightarrow> ext_rel B s s'"
  unfolding ext_rel_def by blast

lemma syncUp_loop_ext:
  "syncUp_loop e force dryRun ctx R ls s = Inr s' \<Longrightarrow> ext_rel (number ` set ls) s s'"
proof (induction ls arbitrary: s)
  case Nil
  then show ?case by (simp add: ext_rel_refl)
next
  case (Cons l ls)
  from Cons.prems obtain s1 where 1: "syncUp_issue e force dryRun ctx R l s = Inr s1"
    and 2: "syncUp_loop e force dryRun ctx R ls s1 = Inr s'"
    by (auto split: sum.splits)
  from ext_rel_trans[OF syncUp_issue_ext[OF 1] Cons.IH[OF 2]]
  show ?case by (rule ext_rel_mono) auto
qed

lemma syncUp_loop_ext_Inl:
  "syncUp_loop e force dryRun ctx R ls s = Inl (err, s') \<Longrightarrow> ext_rel (number ` set ls) s s'"
proof (induction ls arbitrary: s)
  case Nil
  then show ?case by simp
next
  case (Cons l ls)
  show ?case
  proof (cases "syncUp_issue e force dryRun ctx R l s")
    case (Inl x)
    with Cons.prems have "syncUp_issue e force dryRun ctx R l s = Inl (err, s')" by simp
    from syncUp_issue_ext_Inl[OF this] show ?thesis by (rule ext_rel_mono) auto
  next
    case (Inr s1)
    with Cons.prems have 2: "syncUp_loop e force dryRun ctx R ls s1 = Inl (err, s')" by simp
    from ext_rel_trans[OF syncUp_issue_ext[OF Inr] Cons.IH[OF 2]]
    show ?thesis by (rule ext_rel_mono) auto
  qed
qed

lemma syncUp_loop_append:
  "syncUp_loop e force dryRun ctx R (xs @ ys) s = Inr s' \<longleftrightarrow>
   (\<exists>s1. syncUp_loop e force dryRun ctx R xs s = Inr s1 \<and> syncUp_loop e force dryRun ctx R ys s1 = Inr s')"
  by (induction xs arbitrary: s) (auto split: sum.splits)

text \<open>A completed loop, seen from one local issue whose number no other local issue has.\<close>

lemma syncUp_loop_at:
  assumes loop: "syncUp_loop e force dryRun ctx R ls s0 = Inr sf"
    and mem: "local \<in> set ls" and dist: "distinct (map number ls)"
  shows "\<exists>s1 s2. syncUp_issue e force dryRun ctx R local s1 = Inr s2 \<and>
           ext_rel (- {number local}) s0 s1 \<and> ext_rel (- {number local}) s2 sf"
proof -
  from mem obtain pre post where ls: "ls = pre @ local # post"
    by (auto simp: in_set_conv_decomp)
  from dist ls have npre: "number local \<notin> number ` set pre" and npost: "number local \<notin> number ` set post"
    by auto
  from loop ls obtain s1 where
    1: "syncUp_loop e force dryRun ctx R pre s0 = Inr s1" and
    r: "syncUp_loop e force dryRun ctx R (local # post) s1 = Inr sf"
    using syncUp_loop_append by blast
  from r obtain s2 where
    2: "syncUp_issue e force dryRun ctx R local s1 = Inr s2" and
    3: "syncUp_loop e force dryRun ctx R post s2 = Inr sf"
    by (cases "syncUp_issue e force dryRun ctx R local s1") auto
  have "ext_rel (- {number local}) s0 s1"
    using syncUp_loop_ext[OF 1] npre by (auto intro: ext_rel_mono)
  moreover have "ext_rel (- {number local}) s2 sf"
    using syncUp_loop_ext[OF 3] npost by (auto intro: ext_rel_mono)
  ultimately show ?thesis using 2 by blast
qed

lemma fetch_pages_trace:
  assumes "fetch_pages e ic since page acc = Some y"
  shows "\<exists>k. snd y = snd acc @ map (\<lambda>q. ListIssues (fetchIssues_params ic since q)) [page..<page + Suc k]"
  using assms
proof (induction e ic since page acc y rule: fetch_pages.raw_induct[rotated, consumes 1])
  case (1 fetch_pages e ic since page acc y)
  let ?ev = "\<lambda>q. ListIssues (fetchIssues_params ic since q)"
  show ?case
  proof (cases "listForRepo e (fetchIssues_params ic since page)")
    case (Inl err)
    with 1(2) have "snd y = snd acc @ map ?ev [page..<page + Suc 0]" by auto
    then show ?thesis by (rule exI)
  next
    case (Inr data)
    show ?thesis
    proof (cases "length data = 0 \<or> length data < per_page")
      case True
      with 1(2) Inr have "snd y = snd acc @ map ?ev [page..<page + Suc 0]"
        by (auto split: if_splits)
      then show ?thesis by (rule exI)
    next
      case False
      with 1(2) Inr have
        "fetch_pages e ic since (page + 1) (fst acc @ page_issues data, snd acc @ [?ev page])
           = Some y"
        by (auto split: if_splits)
      from 1(1)[OF this] have
        "\<exists>k. snd y = (snd acc @ [?ev page]) @ map ?ev [page + 1..<page + 1 + Suc k]"
        unfolding snd_conv .
      then obtain k where
        k: "snd y = (snd acc @ [?ev page]) @ map ?ev [page + 1..<page + 1 + Suc k]" ..
      have "snd y = snd acc @ map ?ev (page # [Suc page..<page + Suc (Suc k)])"
        unfolding k by (simp del: upt_Suc)
      also have "page # [Suc page..<page + Suc (Suc k)] = [page..<page + Suc (Suc k)]"
        by (simp add: upt_rec)
      finally show ?thesis by (rule exI)
    qed
  qed
qed

lemma fetchIssues_trace:
  assumes "fetchIssues e ic since = Some (res, tr)"
  shows "\<exists>k. tr = map (\<lambda>q. ListIssues (fetchIssues_params ic since q)) [1..<Suc (Suc k)]"
  using fetch_pages_trace[of e ic since 1 "([], [])" "(res, tr)"] assms
  by (simp add: fetchIssues_def del: upt_Suc)

lemma fetchIssues_listing:
  assumes "fetchIssues e ic since = Some (res, tr)"
  shows "\<forall>ev\<in>set tr. \<exists>p. ev = ListIssues p"
  using fetchIssues_trace[OF assms] by auto

lemma syncUp_setup_props:
  assumes "syncUp_setup e sp = (ctx, tr1)"
  shows "\<forall>ev\<in>set tr1. \<forall>m. \<not> about m ev"
  using assms
  by (auto simp: syncUp_setup_def getOrCreateProjectConfig_def load_project_data_def
      split: prod.splits option.splits if_splits sum.splits)

lemma start_trace_props:
  assumes "fetchIssues e ic since = Some (res, tr)" and "syncUp_setup e sp = (ctx, tr1)"
  shows "\<forall>ev\<in>set ([LogStart, LogRepo repo] @ tr @ tr1). \<forall>m. \<not> about m ev"
  using syncUp_setup_props[OF assms(2)] fetchIssues_listing[OF assms(1)] by fastforce

lemma syncUp_done:
  assumes "syncUp e force dryRun sp = Some r" and "r_error r = None"
  obtains repo R tr ctx tr1 s0 sf where
    "getCurrentRepo e = Inr repo" "fetchIssues e True None = Some (Inr R, tr)"
    "syncUp_setup e sp = (ctx, tr1)"
    "st_issues s0 = loadSyncState e" "st_updated s0 = 0"
    "st_trace s0 = [LogStart, LogRepo repo] @ tr @ tr1"
    "syncUp_loop e force dryRun ctx R (loadAllLocalIssues e) s0 = Inr sf"
    "r = finish_up e dryRun sf"
    "dryRun \<or> writeState_ok e"
proof -
  from assms obtain repo where 1: "getCurrentRepo e = Inr repo"
    by (cases "getCurrentRepo e") (auto simp: syncUp_def abort_def)
  from assms 1 obtain res tr where f: "fetchIssues e True None = Some (res, tr)"
    by (cases "fetchIssues e True None") (auto simp: syncUp_def)
  from assms 1 f obtain R where 2: "fetchIssues e True None = Some (Inr R, tr)"
    by (cases res) (auto simp: syncUp_def abort_def)
  obtain ctx tr1 where 3: "syncUp_setup e sp = (ctx, tr1)"
    by (cases "syncUp_setup e sp")
  define s0 where "s0 = \<lparr>st_issues = loadSyncState e, st_updated = 0, st_tick = 0,
                           st_trace = [LogStart, LogRepo repo] @ tr @ tr1\<rparr>"
  from assms 1 2 3 obtain sf where
    4: "syncUp_loop e force dryRun ctx R (loadAllLocalIssues e) s0 = Inr sf"
    unfolding s0_def
    by (cases "syncUp_loop e force dryRun ctx R (loadAllLocalIssues e)
                 \<lparr>st_issues = loadSyncState e, st_updated = 0, st_tick = 0,
                  st_trace = [LogStart, LogRepo repo] @ tr @ tr1\<rparr>")
       (auto simp: syncUp_def abort_def)
  have 5: "r = finish_up e dryRun sf"
    using assms(1) 1 2 3 4 unfolding s0_def by (simp add: syncUp_def)
  have 6: "dryRun \<or> writeState_ok e"
    using assms(2) 5 by (auto simp: finish_up_def abort_def split: if_splits)
  have 7: "st_issues s0 = loadSyncState e" "st_updated s0 = 0"
    "st_trace s0 = [LogStart, LogRepo repo] @ tr @ tr1"
    by (simp_all add: s0_def)
  from 1 2 3 7 4 5 6 show thesis by (rule that)
qed

lemma finish_up_trace:
  "\<exists>evs. r_trace (finish_up e dryRun s) = st_trace s @ evs \<and> (\<forall>ev\<in>set evs. \<forall>m. \<not> about m ev)"
  by (auto simp: finish_up_def abort_def)

text \<open>The events about one issue in a completed run are those of its own iteration.\<close>

lemma syncUp_run_at:
  assumes run: "syncUp e force dryRun sp = Some r" and compl: "r_error r = None"
    and mem: "local \<in> set (loadAllLocalIssues e)"
    and dist: "distinct (map number (loadAllLocalIssues e))"
  obtains R tr ctx s1 s2 evs where
    "ctx = fst (syncUp_setup e sp)"
    "fetchIssues e True None = Some (Inr R, tr)"
    "syncUp_issue e force dryRun ctx R local s1 = Inr s2"
    "map_of (st_issues s1) (number local) = map_of (loadSyncState e) (number local)"
    "st_trace s2 = st_trace s1 @ evs"
    "\<forall>ev. about (number local) ev \<longrightarrow> (ev \<in> set (r_trace r) \<longleftrightarrow> ev \<in> set evs)"
    "\<forall>st. r_saved r = Some st \<longrightarrow>
       map_of st (number local) = map_of (st_issues s2) (number local)"
    "dryRun \<or> r_saved r \<noteq> None"
proof -
  from run compl obtain repo R tr ctx tr1 s0 sf where
    R: "fetchIssues e True None = Some (Inr R, tr)" and
    su: "syncUp_setup e sp = (ctx, tr1)" and
    s0: "st_issues s0 = loadSyncState e" "st_trace s0 = [LogStart, LogRepo repo] @ tr @ tr1" and
    loop: "syncUp_loop e force dryRun ctx R (loadAllLocalIssues e) s0 = Inr sf" and
    fin: "r = finish_up e dryRun sf" and
    ok: "dryRun \<or> writeState_ok e"
    by (rule syncUp_done)
  from syncUp_loop_at[OF loop mem dist] obtain s1 s2 where
    step: "syncUp_issue e force dryRun ctx R local s1 = Inr s2" and
    pre: "ext_rel (- {number local}) s0 s1" and post: "ext_rel (- {number local}) s2 sf"
    by blast
  from syncUp_issue_ext[OF step] obtain evs where evs: "st_trace s2 = st_trace s1 @ evs"
    by (auto simp: ext_rel_def)
  from pre obtain a where a: "st_trace s1 = st_trace s0 @ a"
    "\<forall>ev\<in>set a. \<not> about (number local) ev"
    by (auto simp: ext_rel_def)
  from post obtain b where b: "st_trace sf = st_trace s2 @ b"
    "\<forall>ev\<in>set b. \<not> about (number local) ev"
    by (auto simp: ext_rel_def)
  from finish_up_trace[of e dryRun sf] obtain c where
    c: "r_trace (finish_up e dryRun sf) = st_trace sf @ c" "\<forall>ev\<in>set c. \<forall>m. \<not> about m ev"
    by blast
  have tr: "r_trace r = st_trace s0 @ a @ evs @ b @ c"
    using fin a b c evs by simp
  have i0: "\<forall>ev\<in>set (st_trace s0). \<not> about (number local) ev"
    unfolding s0(2) using start_trace_props[OF R su] by blast
  have 5: "\<forall>ev. about (number local) ev \<longrightarrow> (ev \<in> set (r_trace r) \<longleftrightarrow> ev \<in> set evs)"
    unfolding tr using i0 a(2) b(2) c(2) by auto
  have 3: "map_of (st_issues s1) (number local) = map_of (loadSyncState e) (number local)"
    using pre s0(1) by (auto simp: ext_rel_def)
  have 6: "\<forall>st. r_saved r = Some st \<longrightarrow>
       map_of st (number local) = map_of (st_issues s2) (number local)"
    using post fin by (auto simp: finish_up_def abort_def ext_rel_def split: if_splits)
  have 7: "dryRun \<or> r_saved r \<noteq> None"
    using ok fin by (auto simp: finish_up_def)
  have 0: "ctx = fst (syncUp_setup e sp)" using su by simp
  from 0 R step 3 evs 5 6 7 show thesis by (rule that)
qed

lemma getProjectItemForIssue_field_event:
  assumes "ev \<in> set (snd (getProjectItemForIssue e pn n))"
  shows "field_event ev"
proof -
  obtain evs where evs: "snd (items_loop e pn [n] 0 ([], [])) = evs"
    and all: "\<forall>ev\<in>set evs. (\<exists>b. ev = QueryItems b \<and> set b \<subseteq> set [n]) \<or> (\<exists>err. ev = WarnBatch err)"
    using items_loop_trace[of e pn "[n]" 0 "([], [])"] by auto
  have "ev \<in> set evs"
    using assms(1) evs
    by (simp add: getProjectItemForIssue_def getProjectItemsForIssues_def split: prod.splits)
  with all have "(\<exists>b. ev = QueryItems b \<and> set b \<subseteq> set [n]) \<or> (\<exists>err. ev = WarnBatch err)"
    by blast
  then show ?thesis by auto
qed

lemma sync_field_field_event:
  assumes "ev \<in> set (sync_field e dryRun n pid iid fm rf entry)"
  shows "field_event ev"
proof -
  obtain fieldName localValue where entry: "entry = (fieldName, localValue)"
    by (cases entry)
  show ?thesis
  proof (cases "fm fieldName")
    case None
    with assms entry show ?thesis by (simp add: sync_field_def)
  next
    case (Some field)
    obtain ms r where u: "updateProjectField e pid iid (field_id field) field localValue = (ms, r)"
      by (cases "updateProjectField e pid iid (field_id field) field localValue")
    show ?thesis
      using assms entry Some u
      by (cases r; cases dryRun) (auto simp: sync_field_def split: if_splits)
  qed
qed

lemma sync_project_fields_trace:
  "\<exists>evs. st_trace (sync_project_fields e dryRun ctx syncInfo local s) = st_trace s @ evs \<and>
         (\<forall>ev\<in>set evs. field_event ev)"
proof -
  have q: "\<forall>ev\<in>set (snd (getProjectItemForIssue e (ctx_number ctx) (number local))). field_event ev"
    using getProjectItemForIssue_field_event by blast
  have f: "\<forall>ev\<in>set (concat (map (sync_field e dryRun (number local) pid iid fm rf) lf)). field_event ev"
    for pid iid fm rf lf
    using sync_field_field_event by fastforce
  show ?thesis
    unfolding sync_project_fields_def
    using q f
    by (auto simp: emit_def Let_def split: option.splits prod.splits)
qed

section \<open>Lemmas on dry runs\<close>

lemma items_loop_not_mutating:
  "filter mutating (snd (getProjectItemForIssue e pn n)) = []"
proof -
  have "\<forall>ev\<in>set (snd (getProjectItemForIssue e pn n)). \<not> mutating ev"
  proof
    fix ev assume "ev \<in> set (snd (getProjectItemForIssue e pn n))"
    then have "ev \<in> set (snd (items_loop e pn [n] 0 ([], [])))"
      by (simp add: getProjectItemForIssue_def getProjectItemsForIssues_def split: prod.splits)
    with items_loop_trace[of e pn "[n]" 0 "([], [])"]
    have "(\<exists>b. ev = QueryItems b \<and> set b \<subseteq> set [n]) \<or> (\<exists>err. ev = WarnBatch err)"
      by auto
    then show "\<not> mutating ev" by auto
  qed
  then show ?thesis by (simp add: filter_empty_conv)
qed

lemma sync_field_dry: "filter mutating (sync_field e True n pid iid fm rf entry) = []"
  by (cases entry) (simp add: sync_field_def split: option.splits)

lemma sync_fields_dry:
  "filter mutating (concat (map (sync_field e True n pid iid fm rf) lf)) = []"
  by (induction lf) (simp_all add: sync_field_dry)

lemma sync_project_fields_dry:
  "\<exists>evs. sync_project_fields e True ctx syncInfo local s = emit evs s \<and> filter mutating evs = []"
proof -
  have e0: "s = emit [] s" by (simp add: emit_def)
  obtain item tr where g: "getProjectItemForIssue e (ctx_number ctx) (number local) = (item, tr)"
    by (cases "getProjectItemForIssue e (ctx_number ctx) (number local)")
  have tr: "filter mutating tr = []"
    using items_loop_not_mutating[of e "ctx_number ctx" "number local"] g by simp
  show ?thesis
    unfolding sync_project_fields_def
    using e0 g tr sync_fields_dry
    by (cases item) (auto simp: Let_def split: option.splits intro: exI[of _ "[]"])
qed

lemma quiet_refl: "quiet s s"
  by (simp add: quiet_def)

lemma quiet_trans: "quiet s s1 \<Longrightarrow> quiet s1 s2 \<Longrightarrow> quiet s s2"
  by (auto simp: quiet_def)

lemma push_updates_dry:
  "\<exists>s'. push_updates e True local upd s = Inr s' \<and> quiet s s'"
  by (simp add: push_updates_def quiet_def emit_def)

lemma syncUp_issue_dry:
  "\<exists>s'. syncUp_issue e force True ctx R local s = Inr s' \<and> quiet s s'"
proof (cases "remoteMap R (number local)")
  case None
  then show ?thesis by (simp add: syncUp_issue_def quiet_def emit_def)
next
  case (Some remote)
  note rem = this
  show ?thesis
  proof (cases "map_of (st_issues s) (number local)")
    case None
    with rem show ?thesis by (simp add: syncUp_issue_def quiet_def emit_def)
  next
    case (Some syncInfo)
    obtain s1 where p: "push_updates e True local (diff_updates local remote) s = Inr s1"
      and q1: "quiet s s1"
      using push_updates_dry by blast
    obtain evs where f: "sync_project_fields e True ctx syncInfo local s1 = emit evs s1"
      "filter mutating evs = []"
      using sync_project_fields_dry by blast
    have "quiet s1 (sync_project_fields e True ctx syncInfo local s1)"
      using f by (simp add: quiet_def emit_def)
    with q1 have "quiet s (sync_project_fields e True ctx syncInfo local s1)"
      by (rule quiet_trans)
    with rem Some p show ?thesis
      by (simp add: syncUp_issue_def quiet_def emit_def)
  qed
qed

lemma syncUp_loop_dry:
  "\<exists>s'. syncUp_loop e force True ctx R ls s = Inr s' \<and> quiet s s'"
proof (induction ls arbitrary: s)
  case Nil
  then show ?case by (simp add: quiet_refl)
next
  case (Cons l ls)
  obtain s1 where 1: "syncUp_issue e force True ctx R l s = Inr s1" "quiet s s1"
    using syncUp_issue_dry by blast
  obtain s2 where 2: "syncUp_loop e force True ctx R ls s1 = Inr s2" "quiet s1 s2"
    using Cons.IH by blast
  from 1 2 show ?case by (auto intro: quiet_trans)
qed

text \<open>
  The set-up of a push writes the configuration file when no project is configured and
  one is detected; it makes no other change.
\<close>

lemma syncUp_setup_mutating:
  "filter mutating (snd (syncUp_setup e sp))
     = (if sp \<and> config_project e = None
        then (case detectProjectForRepo e of None \<Rightarrow> [] | Some d \<Rightarrow> [WriteConfig d])
        else [])"
  by (auto simp: syncUp_setup_def getOrCreateProjectConfig_def load_project_data_def
      split: prod.splits option.splits if_splits sum.splits)

lemma fetchIssues_not_mutating:
  assumes "fetchIssues e ic since = Some (res, tr)"
  shows "filter mutating tr = []"
  using fetchIssues_listing[OF assms] by (auto simp: filter_empty_conv)

text \<open>
  A dry-run push that returns saves no state, and the only change it can make is that
  write of the configuration file.
\<close>

lemma syncUp_dry_run:
  assumes "syncUp e force True sp = Some r"
  shows "r_saved r = None
       \<and> (filter mutating (r_trace r) = []
            \<or> filter mutating (r_trace r) = filter mutating (snd (syncUp_setup e sp)))"
proof (cases "getCurrentRepo e")
  case (Inl err)
  with assms show ?thesis by (auto simp: syncUp_def abort_def)
next
  case (Inr repo)
  note repo = this
  from assms repo obtain res tr where f: "fetchIssues e True None = Some (res, tr)"
    by (cases "fetchIssues e True None") (auto simp: syncUp_def)
  note t = fetchIssues_not_mutating[OF f]
  show ?thesis
  proof (cases res)
    case (Inl err)
    with assms repo f t show ?thesis by (auto simp: syncUp_def abort_def)
  next
    case (Inr R)
    obtain ctx tr1 where su: "syncUp_setup e sp = (ctx, tr1)"
      by (cases "syncUp_setup e sp")
    define s0 where "s0 = \<lparr>st_issues = loadSyncState e, st_updated = 0, st_tick = 0,
                             st_trace = [LogStart, LogRepo repo] @ tr @ tr1\<rparr>"
    have t0: "filter mutating (st_trace s0) = filter mutating tr1"
      using t by (simp add: s0_def)
    obtain sf where loop: "syncUp_loop e force True ctx R (loadAllLocalIssues e) s0 = Inr sf"
      and q: "quiet s0 sf"
      using syncUp_loop_dry by blast
    have "r = finish_up e True sf"
      using assms repo f Inr su loop unfolding s0_def by (simp add: syncUp_def)
    moreover have "filter mutating (st_trace sf) = filter mutating tr1"
      using q t0 by (auto simp: quiet_def)
    ultimately show ?thesis using su by (simp add: finish_up_def)
  qed
qed

lemma syncUp_returns:
  assumes "fetchIssues e True None \<noteq> None"
  shows "syncUp e force dryRun sp \<noteq> None"
  using assms
  by (auto simp: syncUp_def split: sum.splits option.splits prod.splits)

section \<open>Lemmas on the custom-field step and the update\<close>

lemma updateProjectField_item:
  "m \<in> set (fst (updateProjectField e pid iid fid field v)) \<Longrightarrow> mutation_item m = iid"
  by (auto simp: updateProjectField_def mutate_def wrap_error_def
      split: if_splits data_type.splits option.splits)

lemma sync_field_item:
  assumes "Mutate k m \<in> set (sync_field e dryRun n pid iid fm rf entry)"
  shows "mutation_item m = iid"
proof -
  obtain fieldName localValue where entry: "entry = (fieldName, localValue)"
    by (cases entry)
  show ?thesis
  proof (cases "fm fieldName")
    case None
    with assms entry show ?thesis by (simp add: sync_field_def)
  next
    case (Some field)
    obtain ms r where u: "updateProjectField e pid iid (field_id field) field localValue = (ms, r)"
      by (cases "updateProjectField e pid iid (field_id field) field localValue")
    have "\<forall>m\<in>set ms. mutation_item m = iid"
      using updateProjectField_item[of _ e pid iid "field_id field" field localValue] u by simp
    then show ?thesis
      using assms entry Some u
      by (cases r; cases dryRun) (auto simp: sync_field_def split: if_splits)
  qed
qed

lemma getProjectItemForIssue_query:
  "QueryItems [n] \<in> set (snd (getProjectItemForIssue e pn n))"
proof -
  have b: "slice [n] 0 batchSize = [n]" by (simp add: slice_def batchSize_def)
  have stop: "items_loop e pn [n] batchSize acc = acc" for acc
    by (subst items_loop.simps) (simp add: batchSize_def)
  have "QueryItems [n] \<in> set (snd (items_loop e pn [n] 0 ([], [])))"
    by (subst items_loop.simps) (simp add: b stop Let_def split: sum.splits)
  then show ?thesis
    by (auto simp: getProjectItemForIssue_def getProjectItemsForIssues_def split: prod.splits)
qed

lemma sync_project_fields_effect:
  "\<exists>fe. st_trace (sync_project_fields e dryRun ctx syncInfo local s) = st_trace s @ fe
     \<and> (\<forall>ev\<in>set fe. field_event ev)
     \<and> (\<forall>k m. Mutate k m \<in> set fe \<longrightarrow> project_item_id syncInfo = Some (mutation_item m))
     \<and> (fields_step ctx syncInfo local \<longrightarrow> QueryItems [number local] \<in> set fe)
     \<and> st_updated (sync_project_fields e dryRun ctx syncInfo local s) = st_updated s
     \<and> st_issues (sync_project_fields e dryRun ctx syncInfo local s)
         = (if \<not> dryRun \<and> fields_step ctx syncInfo local
               \<and> fst (getProjectItemForIssue e (ctx_number ctx) (number local)) \<noteq> None
            then stamp_fields (number local) (now e (st_tick s)) (st_issues s)
            else st_issues s)"
proof (cases "fields_step ctx syncInfo local")
  case False
  then have "sync_project_fields e dryRun ctx syncInfo local s = s"
    by (auto simp: sync_project_fields_def fields_step_def truthy_opt_def truthy_value_opt_def
        split: option.splits)
  with False show ?thesis by simp
next
  case True
  then obtain projectFields projectId itemId localFields where
    c: "ctx_fields ctx = Some projectFields" "ctx_projectId ctx = Some projectId"
       "project_item_id syncInfo = Some itemId" "project_fields local = Some localFields"
       "truthy projectId" "truthy_value itemId"
    by (auto simp: fields_step_def truthy_opt_def truthy_value_opt_def split: option.splits)
  obtain item tr where g: "getProjectItemForIssue e (ctx_number ctx) (number local) = (item, tr)"
    by (cases "getProjectItemForIssue e (ctx_number ctx) (number local)")
  have q: "QueryItems [number local] \<in> set tr"
    using getProjectItemForIssue_query[of "number local" e "ctx_number ctx"] g by simp
  have trf: "\<forall>ev\<in>set tr. field_event ev"
    using getProjectItemForIssue_field_event[of _ e "ctx_number ctx" "number local"] g by simp
  have trm: "\<forall>k m. Mutate k m \<notin> set tr"
  proof (intro allI notI)
    fix k m assume "Mutate k m \<in> set tr"
    then have "Mutate k m \<in> set (snd (items_loop e (ctx_number ctx) [number local] 0 ([], [])))"
      using g by (simp add: getProjectItemForIssue_def getProjectItemsForIssues_def split: prod.splits)
    with items_loop_trace[of e "ctx_number ctx" "[number local]" 0 "([], [])"]
    show False by auto
  qed
  show ?thesis
  proof (cases item)
    case None
    then have "sync_project_fields e dryRun ctx syncInfo local s = emit tr s"
      using c g by (simp add: sync_project_fields_def)
    then show ?thesis using q trf trm g None by (auto simp: emit_def)
  next
    case (Some remoteProjectItem)
    let ?fs = "concat (map (sync_field e dryRun (number local) projectId itemId
                 (fieldMap projectFields) (extractProjectFieldValues remoteProjectItem projectFields))
                 localFields)"
    have ff: "\<forall>ev\<in>set ?fs. field_event ev"
      using sync_field_field_event by fastforce
    have fm: "\<forall>k m. Mutate k m \<in> set ?fs \<longrightarrow> mutation_item m = itemId"
      using sync_field_item by fastforce
    have tr1: "st_trace (sync_project_fields e dryRun ctx syncInfo local s) = st_trace s @ (tr @ ?fs)"
      using c g Some by (simp add: sync_project_fields_def Let_def emit_def)
    have is1: "st_issues (sync_project_fields e dryRun ctx syncInfo local s)
         = (if \<not> dryRun then stamp_fields (number local) (now e (st_tick s)) (st_issues s)
            else st_issues s)"
      using c g Some by (simp add: sync_project_fields_def Let_def emit_def)
    have up1: "st_updated (sync_project_fields e dryRun ctx syncInfo local s) = st_updated s"
      using c g Some by (simp add: sync_project_fields_def Let_def emit_def)
    have a: "\<forall>ev\<in>set (tr @ ?fs). field_event ev" using trf ff by auto
    have b: "\<forall>k m. Mutate k m \<in> set (tr @ ?fs) \<longrightarrow> project_item_id syncInfo = Some (mutation_item m)"
      using trm fm c(3) by auto
    have d: "QueryItems [number local] \<in> set (tr @ ?fs)" using q by simp
    show ?thesis
      using tr1 is1 up1 a b d True g Some by (intro exI[of _ "tr @ ?fs"]) simp
  qed
qed

lemma push_updates_effect:
  assumes "push_updates e False local upd s = Inr sa"
  shows "(update_keys upd = [] \<and> sa = s)
       \<or> (update_keys upd \<noteq> []
          \<and> st_trace sa = st_trace s @ [UpdateIssue (number local) upd]
          \<and> st_issues sa = AList.update (number local)
               \<lparr> github_updated_at = now e (st_tick s),
                 local_updated_at = updated_at local,
                 last_synced_at = now e (st_tick s + 1),
                 project_item_id = None,
                 project_fields_updated_at = None \<rparr> (st_issues s)
          \<and> st_tick sa = st_tick s + 2
          \<and> st_updated sa = st_updated s + 1)"
  using assms by (auto simp: push_updates_def emit_def split: if_splits)

section \<open>Lemmas on repeated pushes\<close>

lemma would_update_cong:
  assumes "map_option core (map_of st' (number local)) = map_option core (map_of st (number local))"
    and "remoteMap R' (number local) = remoteMap R (number local)"
  shows "would_update mt force R' st' local = would_update mt force R st local"
proof (cases "map_of st (number local)")
  case None
  with assms show ?thesis by (simp add: would_update_def split: option.splits)
next
  case (Some r)
  with assms(1) obtain r' where r': "map_of st' (number local) = Some r'" "core r' = core r"
    by (cases "map_of st' (number local)") auto
  then have "last_synced_at r' = last_synced_at r" "github_updated_at r' = github_updated_at r"
    by (simp_all add: core_def)
  then have "localModified t r' = localModified t r" "remoteModified x r' = remoteModified x r" for t x
    by (simp_all add: localModified_def remoteModified_def split: option.splits)
  with Some r' assms(2) show ?thesis by (simp add: would_update_def split: option.splits)
qed

lemma stamp_fields_core:
  "map_option core (map_of (stamp_fields n t st) k) = map_option core (map_of st k)"
  by (simp add: stamp_fields_def update_conv' core_def split: option.splits)

lemma is_update_field_event: "field_event ev \<Longrightarrow> \<not> is_update ev"
  by (cases ev) simp_all

lemma sync_project_fields_idle:
  "st_updated (sync_project_fields e dryRun ctx syncInfo local s) = st_updated s
   \<and> (\<exists>evs. st_trace (sync_project_fields e dryRun ctx syncInfo local s) = st_trace s @ evs
          \<and> filter is_update evs = [])
   \<and> same_core (st_issues s) (st_issues (sync_project_fields e dryRun ctx syncInfo local s))"
proof -
  from sync_project_fields_effect[of e dryRun ctx syncInfo local s] obtain fe where
    fe: "st_trace (sync_project_fields e dryRun ctx syncInfo local s) = st_trace s @ fe"
      "\<forall>ev\<in>set fe. field_event ev"
    and up: "st_updated (sync_project_fields e dryRun ctx syncInfo local s) = st_updated s"
    and iss: "st_issues (sync_project_fields e dryRun ctx syncInfo local s)
         = (if \<not> dryRun \<and> fields_step ctx syncInfo local
               \<and> fst (getProjectItemForIssue e (ctx_number ctx) (number local)) \<noteq> None
            then stamp_fields (number local) (now e (st_tick s)) (st_issues s)
            else st_issues s)"
    by blast
  have "filter is_update fe = []"
    using fe(2) is_update_field_event by (auto simp: filter_empty_conv)
  moreover have "same_core (st_issues s) (st_issues (sync_project_fields e dryRun ctx syncInfo local s))"
    unfolding iss by (simp add: same_core_def stamp_fields_core)
  ultimately show ?thesis using fe(1) up by blast
qed

text \<open>An iteration that does not reach the update leaves the count and the timestamps alone.\<close>

lemma syncUp_issue_idle:
  assumes "\<not> would_update (getLocalFileModTime e) force R (st_issues s) local"
  shows "\<exists>s'. syncUp_issue e force dryRun ctx R local s = Inr s'
           \<and> st_updated s' = st_updated s
           \<and> (\<exists>evs. st_trace s' = st_trace s @ evs \<and> filter is_update evs = [])
           \<and> same_core (st_issues s) (st_issues s')"
proof (cases "remoteMap R (number local)")
  case None
  then show ?thesis by (simp add: syncUp_issue_def emit_def same_core_def)
next
  case (Some remote)
  note rem = this
  show ?thesis
  proof (cases "map_of (st_issues s) (number local)")
    case None
    with rem show ?thesis by (simp add: syncUp_issue_def emit_def same_core_def)
  next
    case (Some syncInfo)
    let ?lm = "localModified (getLocalFileModTime e (number local)) syncInfo"
    let ?rm = "remoteModified remote syncInfo"
    show ?thesis
    proof (cases "?rm \<and> ?lm \<and> \<not> force")
      case True
      with rem Some show ?thesis by (simp add: syncUp_issue_def emit_def same_core_def)
    next
      case nc: False
      show ?thesis
      proof (cases ?lm)
        case False
        with rem Some nc show ?thesis by (simp add: syncUp_issue_def same_core_def)
      next
        case True
        with assms rem Some nc have k: "update_keys (diff_updates local remote) = []"
          by (auto simp: would_update_def)
        then have p: "push_updates e dryRun local (diff_updates local remote) s = Inr s"
          by (simp add: push_updates_def)
        have "syncUp_issue e force dryRun ctx R local s
               = Inr (sync_project_fields e dryRun ctx syncInfo local s)"
          using rem Some nc True p by (auto simp: syncUp_issue_def)
        with sync_project_fields_idle[of e dryRun ctx syncInfo local s] show ?thesis by simp
      qed
    qed
  qed
qed

text \<open>An iteration that reaches the update and returns has sent it and stamped the record.\<close>

lemma syncUp_issue_updates:
  assumes "would_update (getLocalFileModTime e) force R (st_issues s) local"
    and "syncUp_issue e force False ctx R local s = Inr s'"
  shows "(\<exists>u evs. st_trace s' = st_trace s @ evs \<and> UpdateIssue (number local) u \<in> set evs)
       \<and> (\<exists>k S. map_of (st_issues s') (number local) = Some S \<and> last_synced_at S = now e k)"
proof -
  from assms(1) obtain remote syncInfo where
    rem: "remoteMap R (number local) = Some remote" and
    rec: "map_of (st_issues s) (number local) = Some syncInfo" and
    nc: "\<not> (remoteModified remote syncInfo
            \<and> localModified (getLocalFileModTime e (number local)) syncInfo \<and> \<not> force)" and
    lm: "localModified (getLocalFileModTime e (number local)) syncInfo" and
    k: "update_keys (diff_updates local remote) \<noteq> []"
    by (auto simp: would_update_def split: option.splits)
  let ?upd = "diff_updates local remote"
  from assms(2) rem rec nc lm obtain sa where
    p: "push_updates e False local ?upd s = Inr sa" and
    s': "s' = sync_project_fields e False ctx syncInfo local sa"
    by (auto simp: syncUp_issue_def split: sum.splits)
  from push_updates_effect[OF p] k have
    pa: "st_trace sa = st_trace s @ [UpdateIssue (number local) ?upd]"
        "st_issues sa = AList.update (number local)
               \<lparr> github_updated_at = now e (st_tick s),
                 local_updated_at = updated_at local,
                 last_synced_at = now e (st_tick s + 1),
                 project_item_id = None,
                 project_fields_updated_at = None \<rparr> (st_issues s)"
    by auto
  from sync_project_fields_idle[of e False ctx syncInfo local sa] obtain evs where
    evs: "st_trace s' = st_trace sa @ evs" and
    sc: "same_core (st_issues sa) (st_issues s')"
    unfolding s' by blast
  have 1: "\<exists>u evs. st_trace s' = st_trace s @ evs \<and> UpdateIssue (number local) u \<in> set evs"
    using evs pa(1) by auto
  have "map_option core (map_of (st_issues s') (number local))
          = Some (now e (st_tick s), updated_at local, now e (st_tick s + 1))"
    using sc pa(2) by (simp add: same_core_def update_conv' core_def)
  then have 2: "\<exists>k S. map_of (st_issues s') (number local) = Some S \<and> last_synced_at S = now e k"
    by (cases "map_of (st_issues s') (number local)") (auto simp: core_def)
  from 1 2 show ?thesis by blast
qed

lemma same_core_refl: "same_core st st"
  by (simp add: same_core_def)

lemma same_core_trans: "same_core a b \<Longrightarrow> same_core b c \<Longrightarrow> same_core a c"
  by (simp add: same_core_def)

lemma syncUp_loop_first:
  assumes "syncUp_loop e force False ctx R ls s = Inr sf"
  shows "\<exists>evs. st_trace sf = st_trace s @ evs
     \<and> (\<forall>n. (\<forall>u. UpdateIssue n u \<notin> set evs) \<longrightarrow>
            map_option core (map_of (st_issues sf) n) = map_option core (map_of (st_issues s) n)
            \<and> (\<forall>L\<in>set ls. number L = n \<longrightarrow>
                  \<not> would_update (getLocalFileModTime e) force R (st_issues s) L))
     \<and> (\<forall>n u. UpdateIssue n u \<in> set evs \<longrightarrow>
            (\<exists>k S. map_of (st_issues sf) n = Some S \<and> last_synced_at S = now e k))"
  using assms
proof (induction ls arbitrary: s)
  case Nil
  then show ?case by simp
next
  case (Cons l ls)
  let ?mt = "getLocalFileModTime e"
  from Cons.prems obtain s1 where
    step: "syncUp_issue e force False ctx R l s = Inr s1" and
    rest: "syncUp_loop e force False ctx R ls s1 = Inr sf"
    by (cases "syncUp_issue e force False ctx R l s") auto
  from syncUp_issue_ext[OF step] obtain e1 where
    e1: "st_trace s1 = st_trace s @ e1" and
    ab: "\<forall>ev\<in>set e1. \<forall>m. about m ev \<longrightarrow> m = number l" and
    fr: "\<forall>k. k \<noteq> number l \<longrightarrow> map_of (st_issues s1) k = map_of (st_issues s) k"
    by (auto simp: ext_rel_def)
  from Cons.IH[OF rest] obtain e2 where
    e2: "st_trace sf = st_trace s1 @ e2" and
    ihA: "\<forall>n. (\<forall>u. UpdateIssue n u \<notin> set e2) \<longrightarrow>
            map_option core (map_of (st_issues sf) n) = map_option core (map_of (st_issues s1) n)
            \<and> (\<forall>L\<in>set ls. number L = n \<longrightarrow> \<not> would_update ?mt force R (st_issues s1) L)" and
    ihB: "\<forall>n u. UpdateIssue n u \<in> set e2 \<longrightarrow>
            (\<exists>k S. map_of (st_issues sf) n = Some S \<and> last_synced_at S = now e k)"
    by blast
  have num: "n = number l" if "UpdateIssue n u \<in> set e1" for n u
    using ab that by fastforce
  have yes: "(\<exists>u. UpdateIssue (number l) u \<in> set e1)
             \<and> (\<exists>k S. map_of (st_issues s1) (number l) = Some S \<and> last_synced_at S = now e k)"
    if "would_update ?mt force R (st_issues s) l"
    using syncUp_issue_updates[OF that step] e1 by auto
  have no: "filter is_update e1 = [] \<and> same_core (st_issues s) (st_issues s1)"
    if "\<not> would_update ?mt force R (st_issues s) l"
    using syncUp_issue_idle[OF that, of False ctx] step e1 by auto
  have c1: "map_option core (map_of (st_issues s1) n) = map_option core (map_of (st_issues s) n)"
    if "\<forall>u. UpdateIssue n u \<notin> set e1" for n
  proof (cases "would_update ?mt force R (st_issues s) l")
    case True
    with yes that have "n \<noteq> number l" by auto
    with fr show ?thesis by simp
  next
    case False
    with no show ?thesis by (simp add: same_core_def)
  qed
  have A: "map_option core (map_of (st_issues sf) n) = map_option core (map_of (st_issues s) n)
            \<and> (\<forall>L\<in>set (l # ls). number L = n \<longrightarrow> \<not> would_update ?mt force R (st_issues s) L)"
    if none: "\<forall>u. UpdateIssue n u \<notin> set (e1 @ e2)" for n
  proof -
    from none have n1: "\<forall>u. UpdateIssue n u \<notin> set e1" and n2: "\<forall>u. UpdateIssue n u \<notin> set e2"
      by auto
    note k1 = c1[OF n1]
    from ihA n2 have k2: "map_option core (map_of (st_issues sf) n)
                           = map_option core (map_of (st_issues s1) n)"
      and w2: "\<forall>L\<in>set ls. number L = n \<longrightarrow> \<not> would_update ?mt force R (st_issues s1) L"
      by auto
    have w: "\<not> would_update ?mt force R (st_issues s) L" if "L \<in> set ls" "number L = n" for L
    proof -
      have "would_update ?mt force R (st_issues s1) L = would_update ?mt force R (st_issues s) L"
        by (rule would_update_cong) (simp_all add: that k1)
      with w2 that show ?thesis by simp
    qed
    have wl: "number l = n \<longrightarrow> \<not> would_update ?mt force R (st_issues s) l"
      using yes n1 by auto
    from k1 k2 w wl show ?thesis by auto
  qed
  have B: "\<exists>k S. map_of (st_issues sf) n = Some S \<and> last_synced_at S = now e k"
    if u: "UpdateIssue n u \<in> set (e1 @ e2)" for n u
  proof (cases "\<exists>u'. UpdateIssue n u' \<in> set e2")
    case True
    with ihB show ?thesis by blast
  next
    case False
    with u have in1: "UpdateIssue n u \<in> set e1" by auto
    then have n: "n = number l" by (rule num)
    have "would_update ?mt force R (st_issues s) l"
    proof (rule ccontr)
      assume "\<not> would_update ?mt force R (st_issues s) l"
      with no have "filter is_update e1 = []" by simp
      with in1 show False by (auto simp: filter_empty_conv)
    qed
    with yes obtain k S where S: "map_of (st_issues s1) n = Some S" "last_synced_at S = now e k"
      using n by auto
    from ihA False have "map_option core (map_of (st_issues sf) n)
                           = map_option core (map_of (st_issues s1) n)" by auto
    with S obtain S' where "map_of (st_issues sf) n = Some S'" "core S' = core S"
      by (cases "map_of (st_issues sf) n") auto
    with S(2) show ?thesis by (auto simp: core_def)
  qed
  have "st_trace sf = st_trace s @ (e1 @ e2)" using e1 e2 by simp
  with A B show ?case by blast
qed

lemma syncUp_loop_idle:
  assumes "\<forall>L\<in>set ls. \<not> would_update (getLocalFileModTime e) force R st L"
    and "same_core st (st_issues s)"
  shows "\<exists>sf. syncUp_loop e force dryRun ctx R ls s = Inr sf
           \<and> st_updated sf = st_updated s
           \<and> (\<exists>evs. st_trace sf = st_trace s @ evs \<and> filter is_update evs = [])"
  using assms
proof (induction ls arbitrary: s)
  case Nil
  then show ?case by simp
next
  case (Cons l ls)
  have "would_update (getLocalFileModTime e) force R (st_issues s) l
          = would_update (getLocalFileModTime e) force R st l"
    by (rule would_update_cong) (use Cons.prems(2) in \<open>simp_all add: same_core_def\<close>)
  with Cons.prems(1) have "\<not> would_update (getLocalFileModTime e) force R (st_issues s) l"
    by simp
  from syncUp_issue_idle[OF this, of dryRun ctx] obtain s1 e1 where
    step: "syncUp_issue e force dryRun ctx R l s = Inr s1" and
    u1: "st_updated s1 = st_updated s" and
    e1: "st_trace s1 = st_trace s @ e1" "filter is_update e1 = []" and
    sc: "same_core (st_issues s) (st_issues s1)"
    by blast
  have "same_core st (st_issues s1)"
    using Cons.prems(2) sc by (rule same_core_trans)
  with Cons.IH[of s1] Cons.prems(1) obtain sf e2 where
    rest: "syncUp_loop e force dryRun ctx R ls s1 = Inr sf" and
    u2: "st_updated sf = st_updated s1" and
    e2: "st_trace sf = st_trace s1 @ e2" "filter is_update e2 = []"
    by auto
  have "st_trace sf = st_trace s @ (e1 @ e2)" "filter is_update (e1 @ e2) = []"
    using e1 e2 by simp_all
  with step rest u1 u2 show ?case by auto
qed

lemma is_update_about: "is_update ev \<Longrightarrow> \<exists>m. about m ev"
  by (cases ev) simp_all

section \<open>Lemmas on the local store\<close>

lemma trim_snoc_space:
  assumes "is_space c"
  shows "trim (b @ [c]) = trim b"
proof (cases "\<exists>x\<in>set b. \<not> is_space x")
  case True
  then obtain x where x: "x \<in> set b" "\<not> is_space x" by blast
  then have "dropWhile is_space (b @ [c]) = dropWhile is_space b @ [c]"
    by (rule dropWhile_append1)
  then show ?thesis using assms by (simp add: trim_def)
next
  case False
  then have a: "\<And>x. x \<in> set b \<Longrightarrow> is_space x" by blast
  then have "dropWhile is_space (b @ [c]) = dropWhile is_space [c]"
    by (rule dropWhile_append2)
  also have "\<dots> = []" using assms by simp
  finally have 1: "trim (b @ [c]) = []" unfolding trim_def by simp
  have d: "dropWhile is_space b = []" using a by (simp add: dropWhile_eq_Nil_conv)
  have 2: "trim b = []" unfolding trim_def d by simp
  from 1 2 show ?thesis by simp
qed

lemma trim_newline: "trim (newline b) = trim b"
proof -
  have "is_space (CHR 0x0A)" by (simp add: is_space_def)
  then show ?thesis by (simp add: newline_def trim_snoc_space)
qed

text \<open>
  Where the body has no front-matter block of its own, is trimmed, and the milestone
  and the closing time are not the empty string, the issue comes back as it was saved,
  with \<open>project_fields\<close> present exactly when it was present and not empty.
\<close>

lemma save_load_round_trip:
  assumes "trim (body issue) = body issue"
    and "\<not> has_matter (body issue)"
    and "milestone issue \<noteq> Some []"
    and "closed_at issue \<noteq> Some []"
    and "saveIssue engine write_ok issue store = Inr store'"
  shows "loadIssue store' (number issue)
       = Some (issue\<lparr>project_fields :=
                 (case project_fields issue of
                    None \<Rightarrow> None
                  | Some pf \<Rightarrow> if pf \<noteq> [] then Some pf else None)\<rparr>)"
proof -
  let ?fm = "\<lparr> fm_number = number issue,
                 fm_title = title issue,
                 fm_state = state issue,
                 fm_labels = Some (labels issue),
                 fm_assignees = Some (assignees issue),
                 fm_milestone = milestone issue,
                 fm_created_at = created_at issue,
                 fm_updated_at = updated_at issue,
                 fm_closed_at = closed_at issue,
                 fm_project_fields =
                   (case project_fields issue of
                      None \<Rightarrow> None
                    | Some pf \<Rightarrow> if length pf > 0 then Some pf else None) \<rparr>"
  have ms: "matter_stringify engine (body issue) ?fm
              = Inr \<lparr>file_data = ?fm, file_content = newline (body issue)\<rparr>"
    using assms(2) by (simp add: matter_stringify_def matter_parse_def)
  from assms(5) have st:
    "store' = store(number issue \<mapsto> \<lparr>file_data = ?fm, file_content = newline (body issue)\<rparr>)"
    unfolding saveIssue_def Let_def ms by (auto split: if_splits)
  have b: "trim (newline (body issue)) = body issue"
    using assms(1) by (simp add: trim_newline)
  have m: "(if truthy_opt (milestone issue) then milestone issue else None) = milestone issue"
    using assms(3) by (cases "milestone issue") (auto simp: truthy_opt_def truthy_def)
  have c: "(if truthy_opt (closed_at issue) then closed_at issue else None) = closed_at issue"
    using assms(4) by (cases "closed_at issue") (auto simp: truthy_opt_def truthy_def)
  have p: "(case project_fields issue of None \<Rightarrow> None
            | Some pf \<Rightarrow> if length pf > 0 then Some pf else None)
         = (case project_fields issue of None \<Rightarrow> None
            | Some pf \<Rightarrow> if pf \<noteq> [] then Some pf else None)"
    by (simp split: option.splits)
  have "loadIssue store' (number issue)
      = Some \<lparr> number = number issue, title = title issue,
               body = trim (newline (body issue)), state = state issue,
               labels = labels issue, assignees = assignees issue,
               milestone = (if truthy_opt (milestone issue) then milestone issue else None),
               created_at = created_at issue, updated_at = updated_at issue,
               closed_at = (if truthy_opt (closed_at issue) then closed_at issue else None),
               project_fields = (case project_fields issue of None \<Rightarrow> None
                 | Some pf \<Rightarrow> if length pf > 0 then Some pf else None) \<rparr>"
    unfolding st loadIssue_def by simp
  also have "\<dots> = Some (issue\<lparr>project_fields :=
                 (case project_fields issue of
                    None \<Rightarrow> None
                  | Some pf \<Rightarrow> if pf \<noteq> [] then Some pf else None)\<rparr>)"
    unfolding b m c p by simp
  finally show ?thesis .
qed

section \<open>Lemmas on the batched item fetch and the pull loop\<close>














lemma syncDown_loop_completes:
  assumes "\<forall>i. writeIssue_ok e i"
  shows "\<exists>sf. syncDown_loop e pf pm issues s = Inr sf"
proof (induction issues arbitrary: s)
  case Nil
  then show ?case by simp
next
  case (Cons i issues)
  obtain issue sa where a: "attach_project_fields e pf pm i s = (issue, sa)"
    by (cases "attach_project_fields e pf pm i s")
  then obtain s1 where "syncDown_issue e pf pm i s = Inr s1"
    using assms by (simp add: syncDown_issue_def)
  with Cons.IH[of s1] show ?case by simp
qed

lemma syncDown_completes:
  assumes "getCurrentRepo e = Inr repo" and "mkdir_ok e"
    and f: "fetchIssues e ic (lastSync_of (loadSyncState e) full) = Some (Inr R, tr)"
    and "\<forall>i. writeIssue_ok e i" and "writeState_ok e"
  shows "\<exists>r. syncDown e ic full sp = Some r \<and> r_error r = None"
proof -
  obtain pf pm s0 where i: "syncDown_init e sp R ([LogStart, LogRepo repo] @ tr @ [LogFetched (length R)])
                              = ((pf, pm), s0)"
    by (cases "syncDown_init e sp R ([LogStart, LogRepo repo] @ tr @ [LogFetched (length R)])") auto
  obtain sf where l: "syncDown_loop e pf pm R s0 = Inr sf"
    using syncDown_loop_completes[OF assms(4)] by blast
  show ?thesis
    using assms(1,2,5) f i l by (simp add: syncDown_def finish_down_def)
qed

section \<open>Lemmas on the pull\<close>

lemma set_object_values: "set (object_values st) = ran (map_of st)"
proof -
  have "ran (map_of st) = ran (map_of (AList.clearjunk st))"
    by (simp add: map_of_clearjunk)
  also have "\<dots> = snd ` set (AList.clearjunk st)"
    by (rule ran_distinct) (rule distinct_clearjunk)
  finally show ?thesis by (simp add: object_values_def)
qed

lemma synced_times_code:
  "synced_times st = set (filter truthy (map last_synced_at (object_values st)))"
  by (auto simp: synced_times_def set_object_values[symmetric])

lemma sorted_le_last:
  fixes ys :: "'a::linorder list"
  shows "sorted ys \<Longrightarrow> x \<in> set ys \<Longrightarrow> x \<le> last ys"
proof (induction ys)
  case Nil
  then show ?case by simp
next
  case (Cons a ys)
  show ?case
  proof (cases "ys = []")
    case True
    with Cons.prems show ?thesis by simp
  next
    case False
    then have l: "last ys \<in> set ys" by (rule last_in_set)
    show ?thesis
    proof (cases "x = a")
      case True
      with Cons.prems(1) l False show ?thesis by auto
    next
      case False
      with Cons.prems have "x \<in> set ys" "sorted ys" by auto
      with Cons.IH \<open>ys \<noteq> []\<close> show ?thesis by simp
    qed
  qed
qed

lemma last_sort_Max:
  fixes xs :: "'a::linorder list"
  assumes "xs \<noteq> []"
  shows "last (sort xs) = Max (set xs)"
proof -
  have ne: "sort xs \<noteq> []" using assms by (metis length_0_conv length_sort)
  have "\<forall>x\<in>set (sort xs). x \<le> last (sort xs)"
    using sorted_le_last[of "sort xs"] by simp
  then have le: "\<forall>x\<in>set xs. x \<le> last (sort xs)" by simp
  have "last (sort xs) \<in> set (sort xs)" using ne by (rule last_in_set)
  then have mem: "last (sort xs) \<in> set xs" by simp
  have "Max (set xs) = last (sort xs)"
    using le mem by (intro Max_eqI) auto
  then show ?thesis by simp
qed

lemma lastSync_of_eq:
  "lastSync_of st fullSync
     = (if fullSync \<or> synced_times st = {} then None else Some (Max (synced_times st)))"
proof -
  define ts where "ts = filter truthy (map last_synced_at (object_values st))"
  have st: "synced_times st = set ts" unfolding ts_def by (rule synced_times_code)
  have l: "lastSync_of st fullSync
             = (if \<not> fullSync then (if length ts > 0 then Some (last (sort ts)) else None) else None)"
    unfolding ts_def lastSync_of_def Let_def ..
  show ?thesis
  proof (cases "fullSync \<or> ts = []")
    case True
    then show ?thesis unfolding st l by auto
  next
    case False
    then have "last (sort ts) = Max (set ts)" by (intro last_sort_Max) simp
    with False show ?thesis unfolding st l by simp
  qed
qed

lemma lastSync_truthy: "lastSync_of st fullSync = Some t \<Longrightarrow> truthy t"
proof -
  assume a: "lastSync_of st fullSync = Some t"
  then have ne: "synced_times st \<noteq> {}" and t: "t = Max (synced_times st)"
    by (auto simp: lastSync_of_eq split: if_splits)
  have "finite (synced_times st)" by (simp add: synced_times_code)
  from this ne have "Max (synced_times st) \<in> synced_times st" by (rule Max_in)
  with t show "truthy t" by (simp add: synced_times_def)
qed

lemma getProjectItemsForIssues_cfg:
  "\<forall>ev\<in>set (snd (getProjectItemsForIssues e pn nums)). cfg_event ev"
proof
  fix ev assume "ev \<in> set (snd (getProjectItemsForIssues e pn nums))"
  with items_loop_trace[of e pn nums 0 "([], [])"]
  have "(\<exists>b. ev = QueryItems b \<and> set b \<subseteq> set nums) \<or> (\<exists>err. ev = WarnBatch err)"
    by (auto simp: getProjectItemsForIssues_def)
  then show "cfg_event ev" by auto
qed

lemma fetch_project_data_cfg:
  assumes "fetch_project_data e c nums tick = (pd, tick', tr)"
  shows "\<forall>ev\<in>set tr. cfg_event ev"
proof -
  obtain m itr where g: "getProjectItemsForIssues e
      (case project_number c of Some k \<Rightarrow> k | None \<Rightarrow> 0) nums = (m, itr)"
    by (cases "getProjectItemsForIssues e (case project_number c of Some k \<Rightarrow> k | None \<Rightarrow> 0) nums")
  have "\<forall>ev\<in>set itr. cfg_event ev"
    using getProjectItemsForIssues_cfg[of e "case project_number c of Some k \<Rightarrow> k | None \<Rightarrow> 0" nums] g
    by simp
  with assms g show ?thesis
    by (auto simp: fetch_project_data_def split: sum.splits prod.splits if_splits)
qed

lemma syncDown_init_props:
  assumes "syncDown_init e sp R tr0 = (pd, s0)"
  shows "d_issues s0 = loadSyncState e"
    and "\<exists>cfg. d_trace s0 = tr0 @ cfg \<and> (\<forall>ev\<in>set cfg. cfg_event ev)"
proof -
  obtain pc tr1 where c: "(if sp then getOrCreateProjectConfig e else (None, [])) = (pc, tr1)"
    by (cases "if sp then getOrCreateProjectConfig e else (None, [])")
  have t1: "\<forall>ev\<in>set tr1. cfg_event ev"
    using c by (auto simp: getOrCreateProjectConfig_def split: if_splits option.splits)
  show "d_issues s0 = loadSyncState e"
    using assms c by (auto simp: syncDown_init_def split: option.splits if_splits prod.splits)
  show "\<exists>cfg. d_trace s0 = tr0 @ cfg \<and> (\<forall>ev\<in>set cfg. cfg_event ev)"
  proof (cases pc)
    case None
    with assms c t1 show ?thesis by (auto simp: syncDown_init_def)
  next
    case (Some cf)
    show ?thesis
    proof (cases "project_enabled sp pc")
      case False
      with assms c t1 Some show ?thesis by (auto simp: syncDown_init_def)
    next
      case True
      obtain pd' tick tr2 where f: "fetch_project_data e cf (map number R) 0 = (pd', tick, tr2)"
        by (cases "fetch_project_data e cf (map number R) 0") auto
      from fetch_project_data_cfg[OF f] have t2: "\<forall>ev\<in>set tr2. cfg_event ev" .
      have "d_trace s0 = tr0 @ (tr1 @ tr2)"
        using assms c Some True f by (auto simp: syncDown_init_def)
      with t1 t2 show ?thesis by (intro exI[of _ "tr1 @ tr2"]) auto
    qed
  qed
qed

lemma set_project_item_other:
  "k \<noteq> n \<Longrightarrow> map_of (set_project_item n i t st) k = map_of st k"
  by (simp add: set_project_item_def update_conv' split: option.splits)

lemma attach_project_fields_props:
  assumes "attach_project_fields e pf pm i s = (i', s1)"
  shows "number i' = number i" "updated_at i' = updated_at i" "d_trace s1 = d_trace s"
    "d_tick s \<le> d_tick s1"
    "\<forall>k. k \<noteq> number i \<longrightarrow> map_of (d_issues s1) k = map_of (d_issues s) k"
  using assms
  by (auto simp: attach_project_fields_def Let_def set_project_item_other update_conv'
      split: option.splits)

lemma syncDown_issue_Inr:
  assumes "syncDown_issue e pf pm i s = Inr s'"
  shows "\<exists>i' k r. d_trace s' = d_trace s @ [WriteIssue i'] \<and> number i' = number i
           \<and> d_tick s \<le> k \<and> k < d_tick s'
           \<and> map_of (d_issues s') (number i) = Some r
           \<and> github_updated_at r = updated_at i \<and> local_updated_at r = updated_at i
           \<and> last_synced_at r = now e k
           \<and> (\<forall>k'. k' \<noteq> number i \<longrightarrow> map_of (d_issues s') k' = map_of (d_issues s) k')"
proof -
  obtain i' s1 where a: "attach_project_fields e pf pm i s = (i', s1)"
    by (cases "attach_project_fields e pf pm i s")
  note p = attach_project_fields_props[OF a]
  from assms a have s': "s' = s1\<lparr>d_issues :=
                      AList.update (number i')
                        (merge_record (map_of (d_issues s1) (number i'))
                           (updated_at i') (now e (d_tick s1)))
                        (d_issues s1),
                    d_tick := d_tick s1 + 1,
                    d_trace := d_trace s1 @ [WriteIssue i']\<rparr>"
    by (auto simp: syncDown_issue_def split: if_splits)
  let ?r = "merge_record (map_of (d_issues s1) (number i')) (updated_at i') (now e (d_tick s1))"
  have "d_trace s' = d_trace s @ [WriteIssue i']" using s' p(3) by simp
  moreover have "d_tick s \<le> d_tick s1 \<and> d_tick s1 < d_tick s'" using s' p(4) by simp
  moreover have "map_of (d_issues s') (number i) = Some ?r"
    using s' p(1) by (simp add: update_conv')
  moreover have "github_updated_at ?r = updated_at i \<and> local_updated_at ?r = updated_at i
                 \<and> last_synced_at ?r = now e (d_tick s1)"
    using p(2) by (simp add: merge_record_def)
  moreover have "\<forall>k'. k' \<noteq> number i \<longrightarrow> map_of (d_issues s') k' = map_of (d_issues s) k'"
    using s' p(1,5) by (simp add: update_conv')
  ultimately show ?thesis using p(1) by blast
qed

lemma syncDown_issue_Inl:
  assumes "syncDown_issue e pf pm i s = Inl (err, s')"
  shows "\<exists>i'. d_trace s' = d_trace s @ [WriteIssue i']"
proof -
  obtain i' s1 where a: "attach_project_fields e pf pm i s = (i', s1)"
    by (cases "attach_project_fields e pf pm i s")
  with assms attach_project_fields_props(3)[OF a] show ?thesis
    by (auto simp: syncDown_issue_def split: if_splits)
qed

lemma syncDown_loop_Inr:
  assumes "syncDown_loop e pf pm issues s = Inr sf"
  shows "(\<exists>ws. d_trace sf = d_trace s @ map WriteIssue ws \<and> map number ws = map number issues)
       \<and> (\<forall>k'. k' \<notin> number ` set issues \<longrightarrow> map_of (d_issues sf) k' = map_of (d_issues s) k')
       \<and> d_tick s \<le> d_tick sf"
  using assms
proof (induction issues arbitrary: s)
  case Nil
  then show ?case by simp
next
  case (Cons i issues)
  from Cons.prems obtain s1 where
    step: "syncDown_issue e pf pm i s = Inr s1" and
    rest: "syncDown_loop e pf pm issues s1 = Inr sf"
    by (cases "syncDown_issue e pf pm i s") auto
  from syncDown_issue_Inr[OF step] obtain i' where
    1: "d_trace s1 = d_trace s @ [WriteIssue i']" "number i' = number i"
       "d_tick s \<le> d_tick s1"
       "\<forall>k'. k' \<noteq> number i \<longrightarrow> map_of (d_issues s1) k' = map_of (d_issues s) k'"
    by force
  from Cons.IH[OF rest] obtain ws where
    2: "d_trace sf = d_trace s1 @ map WriteIssue ws" "map number ws = map number issues"
       "\<forall>k'. k' \<notin> number ` set issues \<longrightarrow> map_of (d_issues sf) k' = map_of (d_issues s1) k'"
       "d_tick s1 \<le> d_tick sf"
    by blast
  have "d_trace sf = d_trace s @ map WriteIssue (i' # ws)" using 1(1) 2(1) by simp
  moreover have "map number (i' # ws) = map number (i # issues)" using 1(2) 2(2) by simp
  moreover have "\<forall>k'. k' \<notin> number ` set (i # issues) \<longrightarrow> map_of (d_issues sf) k' = map_of (d_issues s) k'"
    using 1(4) 2(3) by simp
  moreover have "d_tick s \<le> d_tick sf" using 1(3) 2(4) by simp
  ultimately show ?case by blast
qed

lemma syncDown_loop_Inl:
  assumes "syncDown_loop e pf pm issues s = Inl (err, s')"
  shows "\<exists>ws. d_trace s' = d_trace s @ map WriteIssue ws"
  using assms
proof (induction issues arbitrary: s)
  case Nil
  then show ?case by simp
next
  case (Cons i issues)
  show ?case
  proof (cases "syncDown_issue e pf pm i s")
    case (Inl x)
    with Cons.prems have "syncDown_issue e pf pm i s = Inl (err, s')" by simp
    from syncDown_issue_Inl[OF this] obtain i' where "d_trace s' = d_trace s @ map WriteIssue [i']"
      by auto
    then show ?thesis by blast
  next
    case (Inr s1)
    with Cons.prems have rest: "syncDown_loop e pf pm issues s1 = Inl (err, s')" by simp
    from syncDown_issue_Inr[OF Inr] obtain i' where 1: "d_trace s1 = d_trace s @ [WriteIssue i']"
      by force
    from Cons.IH[OF rest] obtain ws where "d_trace s' = d_trace s1 @ map WriteIssue ws" by blast
    with 1 have "d_trace s' = d_trace s @ map WriteIssue (i' # ws)" by simp
    then show ?thesis by blast
  qed
qed

lemma syncDown_loop_record:
  assumes "syncDown_loop e pf pm issues s = Inr sf" and "i \<in> set issues"
    and "distinct (map number issues)"
  shows "\<exists>r k. map_of (d_issues sf) (number i) = Some r
           \<and> github_updated_at r = updated_at i \<and> local_updated_at r = updated_at i
           \<and> last_synced_at r = now e k"
  using assms
proof (induction issues arbitrary: s)
  case Nil
  then show ?case by simp
next
  case (Cons j issues)
  from Cons.prems(1) obtain s1 where
    step: "syncDown_issue e pf pm j s = Inr s1" and
    rest: "syncDown_loop e pf pm issues s1 = Inr sf"
    by (cases "syncDown_issue e pf pm j s") auto
  show ?case
  proof (cases "i = j")
    case True
    from syncDown_issue_Inr[OF step] obtain r k where
      r: "map_of (d_issues s1) (number j) = Some r" "github_updated_at r = updated_at j"
         "local_updated_at r = updated_at j" "last_synced_at r = now e k"
      by blast
    from Cons.prems(3) have "number j \<notin> number ` set issues" by simp
    with syncDown_loop_Inr[OF rest] have "map_of (d_issues sf) (number j) = map_of (d_issues s1) (number j)"
      by blast
    with r True show ?thesis by auto
  next
    case False
    with Cons.prems have "i \<in> set issues" "distinct (map number issues)" by auto
    from Cons.IH[OF rest this] show ?thesis .
  qed
qed

lemma filter_is_list_cfg: "\<forall>ev\<in>set cfg. cfg_event ev \<Longrightarrow> filter is_list cfg = []"
proof -
  assume a: "\<forall>ev\<in>set cfg. cfg_event ev"
  have "\<not> is_list ev" if "cfg_event ev" for ev using that by (cases ev) simp_all
  with a show ?thesis by (auto simp: filter_empty_conv)
qed

lemma filter_is_list_writes: "filter is_list (map WriteIssue ws) = []"
  by (induction ws) simp_all

lemma listing_written:
  assumes "\<forall>ev\<in>set tr. \<exists>p. ev = ListIssues p"
  shows "filter is_write_state tr = []" and "written tr = []"
  using assms by (induction tr) auto

lemma filter_is_list_listing:
  "filter is_list (map (\<lambda>q. ListIssues (f q)) qs) = map (\<lambda>q. ListIssues (f q)) qs"
  by (induction qs) simp_all

text \<open>The greatest non-empty sync time is the greatest sync time of all records.\<close>

lemma synced_times_Max_all:
  assumes "synced_times st \<noteq> {}"
  shows "Max (synced_times st) = Max (last_synced_at ` ran (map_of st))"
proof -
  let ?A = "last_synced_at ` ran (map_of st)"
  have fin: "finite ?A" using set_object_values[of st, symmetric] by simp
  from assms obtain t where t: "t \<in> ?A" "t \<noteq> []"
    by (auto simp: synced_times_def truthy_def)
  then have ne: "?A \<noteq> {}" by auto
  have mx: "Max ?A \<in> ?A" using fin ne by (rule Max_in)
  have "t \<le> Max ?A" using fin t(1) by (rule Max_ge)
  with t(2) have "Max ?A \<noteq> []" by auto
  with mx have mem: "Max ?A \<in> synced_times st" by (simp add: synced_times_def truthy_def)
  have ub: "\<forall>x\<in>synced_times st. x \<le> Max ?A"
    using fin by (auto simp: synced_times_def)
  have fs: "finite (synced_times st)" using fin by (simp add: synced_times_def)
  show ?thesis using fs ub mem by (intro Max_eqI) auto
qed

section \<open>Conflict classification of push\<close>

text \<open>
  C1. In a push that returns without an error, for a local issue with a remote counterpart and
  a sync record, a conflict is reported for the issue exactly when \<open>force\<close> is false, the
  file's modification time exists and is later than the record's \<open>last_synced_at\<close>, and
  the remote \<open>updated_at\<close> is later than the record's \<open>github_updated_at\<close>. With
  \<open>force\<close> true no conflict is reported and the local payload, when it is not empty, is
  sent to the remote store (or, in a dry run, reported).
\<close>

theorem push_conflict_iff:
  assumes "syncUp e force dryRun syncProjects = Some r" and "r_error r = None"
    and "fetchIssues e True None = Some (Inr remoteIssues, tr)"
    and "local \<in> set (loadAllLocalIssues e)"
    and "distinct (map number (loadAllLocalIssues e))"
    and "remoteMap remoteIssues (number local) = Some remote"
    and "map_of (loadSyncState e) (number local) = Some syncInfo"
  shows "(Conflict (number local) \<in> set (r_trace r) \<longleftrightarrow>
            \<not> force
            \<and> (\<exists>t. getLocalFileModTime e (number local) = Some t \<and> t > last_synced_at syncInfo)
            \<and> updated_at remote > github_updated_at syncInfo)
       \<and> (force
            \<and> (\<exists>t. getLocalFileModTime e (number local) = Some t \<and> t > last_synced_at syncInfo)
            \<and> updated_at remote > github_updated_at syncInfo
            \<and> update_keys (diff_updates local remote) \<noteq> [] \<longrightarrow>
          (if dryRun
           then WouldUpdate (number local) (update_keys (diff_updates local remote))
                  \<in> set (r_trace r)
           else UpdateIssue (number local) (diff_updates local remote)
                  \<in> set (r_trace r)))"
proof -
  let ?n = "number local"
  from assms(1,2,4,5) obtain R tr' ctx s1 s2 evs where
    R: "fetchIssues e True None = Some (Inr R, tr')" and
    step: "syncUp_issue e force dryRun ctx R local s1 = Inr s2" and
    rec: "map_of (st_issues s1) ?n = map_of (loadSyncState e) ?n" and
    evs: "st_trace s2 = st_trace s1 @ evs" and
    tr: "\<forall>ev. about ?n ev \<longrightarrow> (ev \<in> set (r_trace r) \<longleftrightarrow> ev \<in> set evs)"
    by (rule syncUp_run_at)
  from R assms(3) have RR: "R = remoteIssues" by simp
  have lm: "localModified (getLocalFileModTime e ?n) syncInfo \<longleftrightarrow>
        (\<exists>t. getLocalFileModTime e ?n = Some t \<and> t > last_synced_at syncInfo)"
    by (auto simp: localModified_def truthy_def split: option.splits)
  have rm: "remoteModified remote syncInfo \<longleftrightarrow> updated_at remote > github_updated_at syncInfo"
    by (simp add: remoteModified_def)
  let ?lm = "localModified (getLocalFileModTime e ?n) syncInfo"
  let ?rm = "remoteModified remote syncInfo"
  let ?upd = "diff_updates local remote"
  have c1: "Conflict ?n \<in> set evs \<longleftrightarrow> \<not> force \<and> ?lm \<and> ?rm"
  proof (cases "?rm \<and> ?lm \<and> \<not> force")
    case True
    then have "s2 = emit [Conflict ?n] s1"
      using step RR assms(6,7) rec by (simp add: syncUp_issue_def)
    with evs True show ?thesis by (auto simp: emit_def)
  next
    case False
    show ?thesis
    proof (cases ?lm)
      case nl: False
      with False have "s2 = s1"
        using step RR assms(6,7) rec by (simp add: syncUp_issue_def)
      with evs nl show ?thesis by simp
    next
      case l: True
      with False obtain sa where
        p: "push_updates e dryRun local ?upd s1 = Inr sa" and
        s2: "s2 = sync_project_fields e dryRun ctx syncInfo local sa"
        using step RR assms(6,7) rec by (auto simp: syncUp_issue_def split: sum.splits)
      obtain fe where fe: "st_trace s2 = st_trace sa @ fe" "\<forall>ev\<in>set fe. field_event ev"
        using sync_project_fields_trace[of e dryRun ctx syncInfo local sa] s2 by auto
      have "Conflict ?n \<notin> set fe" using fe(2) by fastforce
      moreover have "\<exists>pe. st_trace sa = st_trace s1 @ pe \<and> Conflict ?n \<notin> set pe"
        using p by (auto simp: push_updates_def emit_def split: if_splits)
      ultimately have "Conflict ?n \<notin> set evs" using evs fe(1) by auto
      with False l show ?thesis by auto
    qed
  qed
  have c2: "(if dryRun then WouldUpdate ?n (update_keys ?upd) \<in> set evs
             else UpdateIssue ?n ?upd \<in> set evs)"
    if f: force and l: ?lm and k: "update_keys ?upd \<noteq> []"
  proof -
    from f l obtain sa where
      p: "push_updates e dryRun local ?upd s1 = Inr sa" and
      s2: "s2 = sync_project_fields e dryRun ctx syncInfo local sa"
      using step RR assms(6,7) rec by (auto simp: syncUp_issue_def split: sum.splits)
    obtain fe where fe: "st_trace s2 = st_trace sa @ fe"
      using sync_project_fields_trace[of e dryRun ctx syncInfo local sa] s2 by auto
    have "st_trace sa = st_trace s1 @ [if dryRun then WouldUpdate ?n (update_keys ?upd)
             else UpdateIssue ?n ?upd]"
      using p k by (auto simp: push_updates_def emit_def split: if_splits)
    with fe evs show ?thesis by auto
  qed
  show ?thesis
    using c1 c2 tr lm rm by (auto split: if_splits)
qed

theorem push_conflict_iff_witness:
  "\<exists>r. syncUp demo False False False = Some r \<and> r_error r = None
       \<and> Conflict 3 \<in> set (r_trace r) \<and> Conflict 2 \<notin> set (r_trace r)"
proof -
  let ?l3 = "demo_issue 3 ''Three (edited)'' ''2024-01-01T00:00:00Z'' None"
  let ?r3 = "demo_issue 3 ''Three (remote)'' ''2024-02-10T00:00:00Z'' None"
  let ?l2 = "demo_issue 2 ''Two (edited)'' ''2024-01-01T00:00:00Z'' (Some [(''Priority'', PStr ''High'')])"
  let ?r2 = "demo_issue 2 ''Two'' ''2024-01-01T00:00:00Z'' None"
  let ?R = "[?r3, demo_issue 1 ''One (remote)'' ''2024-02-10T00:00:00Z'' None, ?r2]"
  have h2: "fetchIssues demo True None = Some (Inr ?R, [ListIssues (fetchIssues_params True None 1)])"
    by code_simp
  obtain r where h0: "syncUp demo False False False = Some r"
    using syncUp_returns[of demo False False False] h2 by auto
  have "r_error (the (syncUp demo False False False)) = None" by code_simp
  with h0 have h1: "r_error r = None" by simp
  have h3: "?l3 \<in> set (loadAllLocalIssues demo)" "?l2 \<in> set (loadAllLocalIssues demo)"
    by (simp_all add: demo_def)
  have h4: "distinct (map number (loadAllLocalIssues demo))"
    by (simp add: demo_def demo_issue_def)
  have h5: "remoteMap ?R (number ?l3) = Some ?r3" "remoteMap ?R (number ?l2) = Some ?r2"
    by (simp_all add: remoteMap_def demo_issue_def)
  have h6: "map_of (loadSyncState demo) (number ?l3) = Some (demo_record None)"
    "map_of (loadSyncState demo) (number ?l2) = Some (demo_record (Some ''ITEM''))"
    by (simp_all add: demo_def demo_issue_def)
  have m3: "getLocalFileModTime demo (number ?l3) = Some ''2024-02-20T00:00:00.000Z''"
    and m2: "getLocalFileModTime demo (number ?l2) = Some ''2024-02-20T00:00:00.000Z''"
    by (simp_all add: demo_def demo_issue_def)
  have "Conflict 3 \<in> set (r_trace r)"
    using push_conflict_iff[OF h0 h1 h2 h3(1) h4 h5(1) h6(1)] m3
    by (simp add: demo_issue_def demo_record_def)
  moreover have "Conflict 2 \<notin> set (r_trace r)"
    using push_conflict_iff[OF h0 h1 h2 h3(2) h4 h5(2) h6(2)] m2
    by (simp add: demo_issue_def demo_record_def)
  ultimately show ?thesis using h0 h1 by simp
qed

section \<open>Records after a pull\<close>

text \<open>
  C2. After a pull that returns without an error, the saved record of every fetched issue
  (issue numbers being distinct) has \<open>github_updated_at\<close> and \<open>local_updated_at\<close> equal to
  the issue's \<open>updated_at\<close>, and a \<open>last_synced_at\<close> not earlier than the clock reading at
  the start of the run, the clock being monotone. The state is written once, after the
  files of all fetched issues, as the last step before the closing message.
\<close>

theorem pull_records:
  assumes "syncDown e includeClosed fullSync syncProjects = Some run" and "r_error run = None"
    and "fetchIssues e includeClosed (lastSync_of (loadSyncState e) fullSync) = Some (Inr remoteIssues, tr)"
    and "issue \<in> set remoteIssues"
    and "distinct (map number remoteIssues)"
    and "\<forall>a b. a \<le> b \<longrightarrow> now e a \<le> now e b"
  shows "(\<exists>r. saved_record run (number issue) = Some r
            \<and> github_updated_at r = updated_at issue
            \<and> local_updated_at r = updated_at issue
            \<and> now e 0 \<le> last_synced_at r)
       \<and> (\<exists>pre st. r_trace run = pre @ [WriteState st, LogComplete]
            \<and> r_saved run = Some st
            \<and> filter is_write_state pre = []
            \<and> map number (written pre) = map number remoteIssues)"
proof -
  let ?ls = "lastSync_of (loadSyncState e) fullSync"
  note f = assms(3)
  from assms(1,2) obtain repo where repo: "getCurrentRepo e = Inr repo"
    by (cases "getCurrentRepo e") (auto simp: syncDown_def abort_def)
  from assms(1,2) repo have mk: "mkdir_ok e"
    by (auto simp: syncDown_def abort_def split: if_splits)
  let ?tr0 = "[LogStart, LogRepo repo] @ tr @ [LogFetched (length remoteIssues)]"
  obtain pf pm s0 where i: "syncDown_init e syncProjects remoteIssues ?tr0 = ((pf, pm), s0)"
    by (cases "syncDown_init e syncProjects remoteIssues ?tr0") auto
  from syncDown_init_props(2)[OF i] obtain cfg where
    cfg: "d_trace s0 = ?tr0 @ cfg" "\<forall>ev\<in>set cfg. cfg_event ev" by blast
  from assms(1,2) repo mk f i obtain sf where
    loop: "syncDown_loop e pf pm remoteIssues s0 = Inr sf"
    by (cases "syncDown_loop e pf pm remoteIssues s0") (auto simp: syncDown_def abort_def)
  have run: "run = finish_down e sf"
    using assms(1) repo mk f i loop by (simp add: syncDown_def)
  with assms(2) have ok: "writeState_ok e"
    by (auto simp: finish_down_def abort_def split: if_splits)
  have saved: "r_saved run = Some (d_issues sf)"
    and trace: "r_trace run = d_trace sf @ [WriteState (d_issues sf), LogComplete]"
    using run ok by (simp_all add: finish_down_def)
  from syncDown_loop_record[OF loop assms(4,5)] obtain r k where
    r: "map_of (d_issues sf) (number issue) = Some r" "github_updated_at r = updated_at issue"
       "local_updated_at r = updated_at issue" "last_synced_at r = now e k"
    by blast
  have "now e 0 \<le> now e k" using assms(6) by simp
  with r saved have 1: "\<exists>r. saved_record run (number issue) = Some r
            \<and> github_updated_at r = updated_at issue
            \<and> local_updated_at r = updated_at issue
            \<and> now e 0 \<le> last_synced_at r"
    by (simp add: saved_record_def)
  from syncDown_loop_Inr[OF loop] obtain ws where
    ws: "d_trace sf = d_trace s0 @ map WriteIssue ws" "map number ws = map number remoteIssues"
    by blast
  have nw: "\<not> is_write_state ev" "written [ev] = []" if "cfg_event ev" for ev
    using that by (cases ev; simp)+
  have wa: "written (xs @ ys) = written xs @ written ys" for xs ys
    by (induction xs rule: written.induct) simp_all
  have c1: "filter is_write_state cfg = []" using cfg(2) nw(1) by (auto simp: filter_empty_conv)
  have c2: "written cfg = []" using cfg(2)
  proof (induction cfg)
    case Nil
    then show ?case by simp
  next
    case (Cons ev cfg)
    then have "written [ev] = []" "written cfg = []" using nw(2) by auto
    then show ?case using wa[of "[ev]" cfg] by simp
  qed
  have w1: "filter is_write_state (map WriteIssue ws) = []" by (induction ws) simp_all
  have w2: "written (map WriteIssue ws) = ws" by (induction ws) simp_all
  have "filter is_write_state (d_trace sf) = []"
    using ws(1) cfg(1) c1 w1 listing_written(1)[OF fetchIssues_listing[OF f]] by simp
  moreover have "written (d_trace sf) = ws"
    using ws(1) cfg(1) c2 w2 listing_written(2)[OF fetchIssues_listing[OF f]] by (simp add: wa)
  ultimately have 2: "\<exists>pre st. r_trace run = pre @ [WriteState st, LogComplete]
            \<and> r_saved run = Some st
            \<and> filter is_write_state pre = []
            \<and> map number (written pre) = map number remoteIssues"
    using trace saved ws(2) by blast
  from 1 2 show ?thesis by blast
qed

theorem pull_records_witness:
  "\<exists>run. syncDown demo False False True = Some run \<and> r_error run = None
   \<and> (\<exists>r. saved_record run 1 = Some r
          \<and> github_updated_at r = ''2024-02-10T00:00:00Z''
          \<and> local_updated_at r = ''2024-02-10T00:00:00Z''
          \<and> ''2024-03-01T10:00:00.000Z'' \<le> last_synced_at r)
   \<and> (\<exists>pre st. r_trace run = pre @ [WriteState st, LogComplete]
          \<and> r_saved run = Some st
          \<and> filter is_write_state pre = []
          \<and> map number (written pre) = [3, 1, 2])"
proof -
  let ?i = "demo_issue 1 ''One (remote)'' ''2024-02-10T00:00:00Z'' None"
  let ?R = "[demo_issue 3 ''Three (remote)'' ''2024-02-10T00:00:00Z'' None, ?i,
             demo_issue 2 ''Two'' ''2024-01-01T00:00:00Z'' None]"
  have "map_option fst (fetchIssues demo False (lastSync_of (loadSyncState demo) False))
          = Some (Inr ?R)"
    by code_simp
  then obtain tr where
    h2: "fetchIssues demo False (lastSync_of (loadSyncState demo) False) = Some (Inr ?R, tr)"
    by (cases "fetchIssues demo False (lastSync_of (loadSyncState demo) False)") auto
  have "\<exists>run. syncDown demo False False True = Some run \<and> r_error run = None"
    by (rule syncDown_completes[OF _ _ h2]) (simp_all add: demo_def)
  then obtain run where h0: "syncDown demo False False True = Some run"
    and h1: "r_error run = None" by blast
  have h3: "?i \<in> set ?R" by simp
  have h4: "distinct (map number ?R)" by (simp add: demo_issue_def)
  have h5: "\<forall>a b. a \<le> b \<longrightarrow> now demo a \<le> now demo b" by (auto simp: demo_def)
  have n: "number ?i = 1" "updated_at ?i = ''2024-02-10T00:00:00Z''"
    "map number ?R = [3, 1, 2]" "now demo 0 = ''2024-03-01T10:00:00.000Z''"
    by (simp_all add: demo_issue_def demo_def)
  note c = pull_records[OF h0 h1 h2 h3 h4 h5, unfolded n]
  show ?thesis
    by (intro exI[of _ run] conjI h0 h1 c[THEN conjunct1] c[THEN conjunct2])
qed

section \<open>Issues without a local modification\<close>

text \<open>
  C3, as amended. In a push that returns without an error, a local issue with a remote
  counterpart and a sync record whose file was not modified after \<open>last_synced_at\<close> is
  skipped altogether: the run produces no event about it (no update, no custom-field
  query, no field report and no field mutation) and, unless it is a dry run, saves its
  record unchanged.
\<close>

theorem push_unmodified_skips_fields:
  assumes "syncUp e force dryRun syncProjects = Some r" and "r_error r = None"
    and "fetchIssues e True None = Some (Inr remoteIssues, tr)"
    and "local \<in> set (loadAllLocalIssues e)"
    and "distinct (map number (loadAllLocalIssues e))"
    and "remoteMap remoteIssues (number local) = Some remote"
    and "map_of (loadSyncState e) (number local) = Some syncInfo"
    and "\<not> (\<exists>t. getLocalFileModTime e (number local) = Some t \<and> t > last_synced_at syncInfo)"
  shows "filter (about (number local)) (r_trace r) = []
       \<and> (dryRun \<or> saved_record r (number local) = Some syncInfo)"
proof -
  let ?n = "number local"
  from assms(1,2,4,5) obtain R tr' ctx s1 s2 evs where
    R: "fetchIssues e True None = Some (Inr R, tr')" and
    step: "syncUp_issue e force dryRun ctx R local s1 = Inr s2" and
    rec: "map_of (st_issues s1) ?n = map_of (loadSyncState e) ?n" and
    evs: "st_trace s2 = st_trace s1 @ evs" and
    tr: "\<forall>ev. about ?n ev \<longrightarrow> (ev \<in> set (r_trace r) \<longleftrightarrow> ev \<in> set evs)" and
    sv: "\<forall>st. r_saved r = Some st \<longrightarrow> map_of st ?n = map_of (st_issues s2) ?n" and
    sv2: "dryRun \<or> r_saved r \<noteq> None"
    by (rule syncUp_run_at)
  from R assms(3) have RR: "R = remoteIssues" by simp
  have nl: "\<not> localModified (getLocalFileModTime e ?n) syncInfo"
    using assms(8) by (auto simp: localModified_def split: option.splits if_splits)
  have "s2 = s1"
    using step RR assms(6,7) rec nl by (simp add: syncUp_issue_def)
  with evs have "evs = []" by simp
  with tr have "\<forall>ev\<in>set (r_trace r). \<not> about ?n ev" by auto
  then have 1: "filter (about ?n) (r_trace r) = []" by (simp add: filter_empty_conv)
  have 2: "dryRun \<or> saved_record r ?n = Some syncInfo"
    using sv sv2 \<open>s2 = s1\<close> rec assms(7) by (auto simp: saved_record_def)
  from 1 2 show ?thesis by simp
qed

theorem push_unmodified_skips_fields_witness:
  "\<exists>r. syncUp demo False False True = Some r \<and> r_error r = None
       \<and> filter (about 1) (r_trace r) = []
       \<and> saved_record r 1 = Some (demo_record (Some ''ITEM''))"
proof -
  let ?l = "demo_issue 1 ''One'' ''2024-01-01T00:00:00Z'' (Some [(''Priority'', PStr ''High'')])"
  let ?r = "demo_issue 1 ''One (remote)'' ''2024-02-10T00:00:00Z'' None"
  let ?R = "[demo_issue 3 ''Three (remote)'' ''2024-02-10T00:00:00Z'' None, ?r,
             demo_issue 2 ''Two'' ''2024-01-01T00:00:00Z'' None]"
  have h2: "fetchIssues demo True None = Some (Inr ?R, [ListIssues (fetchIssues_params True None 1)])"
    by code_simp
  obtain r where h0: "syncUp demo False False True = Some r"
    using syncUp_returns[of demo False False True] h2 by auto
  have "r_error (the (syncUp demo False False True)) = None" by code_simp
  with h0 have h1: "r_error r = None" by simp
  have h3: "?l \<in> set (loadAllLocalIssues demo)"
    by (simp add: demo_def)
  have h4: "distinct (map number (loadAllLocalIssues demo))"
    by (simp add: demo_def demo_issue_def)
  have h5: "remoteMap ?R (number ?l) = Some ?r"
    by (simp add: remoteMap_def demo_issue_def)
  have h6: "map_of (loadSyncState demo) (number ?l) = Some (demo_record (Some ''ITEM''))"
    by (simp add: demo_def demo_issue_def)
  have h7: "\<not> (\<exists>t. getLocalFileModTime demo (number ?l) = Some t
                   \<and> t > last_synced_at (demo_record (Some ''ITEM'')))"
    by (simp add: demo_def demo_issue_def demo_record_def)
  have n: "number ?l = 1" by (simp add: demo_issue_def)
  from push_unmodified_skips_fields[OF h0 h1 h2 h3 h4 h5 h6 h7] h0 h1 show ?thesis
    unfolding n by simp
qed

text \<open>
  C3 as stated fails: issue 1 of the concrete working copy is unmodified locally, the
  schema and the project id are resolved, its record carries an item id, its local
  Priority differs from the remote one, and yet neither run reports or applies a field
  difference for it; the only field events are those of issue 2.
\<close>

theorem push_unmodified_fields_counterexample:
  "syncUp demo False False True \<noteq> None
   \<and> syncUp demo False True True \<noteq> None
   \<and> r_error (the (syncUp demo False False True)) = None
   \<and> fst (syncUp_setup demo True)
       = \<lparr>ctx_fields = Some [priority_field], ctx_projectId = Some ''PROJECT'', ctx_number = 7\<rparr>
   \<and> fetchIssues demo True None
       = Some (Inr [demo_issue 3 ''Three (remote)'' ''2024-02-10T00:00:00Z'' None,
                    demo_issue 1 ''One (remote)'' ''2024-02-10T00:00:00Z'' None,
                    demo_issue 2 ''Two'' ''2024-01-01T00:00:00Z'' None],
               [ListIssues (fetchIssues_params True None 1)])
   \<and> remoteMap [demo_issue 3 ''Three (remote)'' ''2024-02-10T00:00:00Z'' None,
                 demo_issue 1 ''One (remote)'' ''2024-02-10T00:00:00Z'' None,
                 demo_issue 2 ''Two'' ''2024-01-01T00:00:00Z'' None] 1
       = Some (demo_issue 1 ''One (remote)'' ''2024-02-10T00:00:00Z'' None)
   \<and> map_of (loadSyncState demo) 1 = Some (demo_record (Some ''ITEM''))
   \<and> \<not> localModified (getLocalFileModTime demo 1) (demo_record (Some ''ITEM''))
   \<and> project_item_id (demo_record (Some ''ITEM'')) = Some (PStr ''ITEM'')
   \<and> loadAllLocalIssues demo ! 0
       = demo_issue 1 ''One'' ''2024-01-01T00:00:00Z'' (Some [(''Priority'', PStr ''High'')])
   \<and> fst (getProjectItemForIssue demo 7 1)
       = Some \<lparr>item_id = PStr ''ITEM'', item_content = IssueRef 1,
               item_fields = [(''Priority'', PStr ''Low'')]\<rparr>
   \<and> filter (about 1) (r_trace (the (syncUp demo False False True))) = []
   \<and> filter (about 1) (r_trace (the (syncUp demo False True True))) = []
   \<and> filter field_event (r_trace (the (syncUp demo False False True)))
       = [QueryItems [2], Mutate 2 (SetSingleSelect ''PROJECT'' (PStr ''ITEM'') ''F_PRIO'' ''O_HIGH''),
          FieldUpdated 2 ''Priority'']
   \<and> filter field_event (r_trace (the (syncUp demo False True True)))
       = [QueryItems [2], WouldUpdateField 2 ''Priority'' (Some (PStr ''Low'')) (PStr ''High'')]"
  by code_simp

section \<open>Dry runs\<close>

text \<open>
  C4. A dry-run push is not free of changes: with \<open>syncProjects\<close> on, no project in
  the configuration file and a project found by detection, \<open>getOrCreateProjectConfig\<close>
  writes the configuration file, dry run or not. On the concrete working copy without
  a configured project the dry run returns, saves no state, and its only change is
  that write; with the project configured it makes no change at all. (For every
  environment, lemmas \<open>syncUp_dry_run\<close> and \<open>syncUp_setup_mutating\<close> show that a
  dry run writes no issue file and no sync state and makes no remote call that
  changes an issue or a field.)
\<close>

theorem dry_run_push_writes_config:
  "config_project demo_detect = None
   \<and> detectProjectForRepo demo_detect = Some demo_detected
   \<and> syncUp demo_detect False True True \<noteq> None
   \<and> filter mutating (r_trace (the (syncUp demo_detect False True True)))
       = [WriteConfig demo_detected]
   \<and> r_saved (the (syncUp demo_detect False True True)) = None
   \<and> syncUp demo False True True \<noteq> None
   \<and> filter mutating (r_trace (the (syncUp demo False True True))) = []"
  by code_simp

section \<open>Conflict detection against push\<close>

text \<open>
  C5. \<open>detectConflicts\<close> takes the local modification from the \<open>updated_at\<close> written
  in the issue file, where push takes it from the modification time of the file. On
  issue 3 of the concrete working copy, edited locally and changed remotely since the
  last pull, push reports the conflict and sends nothing, but \<open>detectConflicts\<close>
  returns no conflict.
\<close>

theorem conflicts_disagrees_with_push:
  "getLocalFileModTime demo 3 = Some ''2024-02-20T00:00:00.000Z''
   \<and> map_of (loadSyncState demo) 3 = Some (demo_record None)
   \<and> last_synced_at (demo_record None) = ''2024-01-01T00:00:05.000Z''
   \<and> github_updated_at (demo_record None) = ''2024-01-01T00:00:00Z''
   \<and> loadAllLocalIssues demo ! 2 = demo_issue 3 ''Three (edited)'' ''2024-01-01T00:00:00Z'' None
   \<and> fetchIssues demo True None
       = Some (Inr [demo_issue 3 ''Three (remote)'' ''2024-02-10T00:00:00Z'' None,
                    demo_issue 1 ''One (remote)'' ''2024-02-10T00:00:00Z'' None,
                    demo_issue 2 ''Two'' ''2024-01-01T00:00:00Z'' None],
               [ListIssues (fetchIssues_params True None 1)])
   \<and> syncUp demo False False False \<noteq> None
   \<and> Conflict 3 \<in> set (r_trace (the (syncUp demo False False False)))
   \<and> filter mutating (filter (about 3) (r_trace (the (syncUp demo False False False)))) = []
   \<and> detectConflicts demo = Some (Inr [])"
  by code_simp

section \<open>Pushing twice\<close>

text \<open>
  C6. Let a push with \<open>force = false\<close> and \<open>dryRun = false\<close> return without an error and let
  a second push with \<open>force = false\<close> start from the state it saved, with the same local
  issues and file modification times, and with a remote side that is unchanged for
  every issue the first run did not update. If no file modification time is later
  than the clock readings of the first run, the second run returns, counts zero updates
  and issues no remote update call.
\<close>

theorem push_twice_second_run_idle:
  assumes "syncUp e False False sp = Some r1" and "r_error r1 = None"
    and "r_saved r1 = Some (loadSyncState e2)"
    and "loadAllLocalIssues e2 = loadAllLocalIssues e"
    and "getLocalFileModTime e2 = getLocalFileModTime e"
    and "fetchIssues e True None = Some (Inr R1, tr1)"
    and "fetchIssues e2 True None = Some (Inr R2, tr2)"
    and "\<forall>n. (\<forall>u. UpdateIssue n u \<notin> set (r_trace r1)) \<longrightarrow> remoteMap R2 n = remoteMap R1 n"
    and "\<forall>n t k. getLocalFileModTime e n = Some t \<longrightarrow> t \<le> now e k"
  shows "\<exists>r2. syncUp e2 False dryRun2 sp2 = Some r2
            \<and> r_updated r2 = 0 \<and> filter is_update (r_trace r2) = []"
proof -
  let ?mt = "getLocalFileModTime e"
  let ?st1 = "loadSyncState e2"
  from assms(1,2) obtain repo R tr ctx su1 s0 sf where
    R: "fetchIssues e True None = Some (Inr R, tr)" and
    su: "syncUp_setup e sp = (ctx, su1)" and
    s0i: "st_issues s0 = loadSyncState e" and
    s0t: "st_trace s0 = [LogStart, LogRepo repo] @ tr @ su1" and
    loop: "syncUp_loop e False False ctx R (loadAllLocalIssues e) s0 = Inr sf" and
    fin: "r1 = finish_up e False sf"
    by (rule syncUp_done)
  from R assms(6) have RR: "R = R1" by simp
  have s0: "\<forall>ev\<in>set (st_trace s0). \<forall>m. \<not> about m ev"
    unfolding s0t using start_trace_props[OF R su] by blast
  from syncUp_loop_first[OF loop] obtain evs where
    evs: "st_trace sf = st_trace s0 @ evs" and
    A: "\<forall>n. (\<forall>u. UpdateIssue n u \<notin> set evs) \<longrightarrow>
            map_option core (map_of (st_issues sf) n) = map_option core (map_of (st_issues s0) n)
            \<and> (\<forall>L\<in>set (loadAllLocalIssues e). number L = n \<longrightarrow>
                  \<not> would_update ?mt False R (st_issues s0) L)" and
    B: "\<forall>n u. UpdateIssue n u \<in> set evs \<longrightarrow>
            (\<exists>k S. map_of (st_issues sf) n = Some S \<and> last_synced_at S = now e k)"
    by blast
  have sf: "st_issues sf = ?st1"
    using assms(2,3) fin by (auto simp: finish_up_def abort_def split: if_splits)
  have t1: "UpdateIssue n u \<in> set (r_trace r1) \<longleftrightarrow> UpdateIssue n u \<in> set evs"
    for n u
  proof -
    have "UpdateIssue n u \<notin> set (st_trace s0)"
      using s0 by fastforce
    then show ?thesis
      using fin evs by (auto simp: finish_up_def abort_def split: if_splits)
  qed
  have H: "\<not> would_update ?mt False R2 ?st1 L" if L: "L \<in> set (loadAllLocalIssues e)" for L
  proof (cases "\<exists>u. UpdateIssue (number L) u \<in> set evs")
    case True
    with B sf obtain k S where S: "map_of ?st1 (number L) = Some S" "last_synced_at S = now e k"
      by auto
    have "\<not> localModified (?mt (number L)) S"
    proof (cases "?mt (number L)")
      case None
      then show ?thesis by (simp add: localModified_def)
    next
      case (Some t)
      with assms(9) have "t \<le> now e k" by blast
      then have "\<not> t > now e k" by simp
      with Some S(2) show ?thesis by (simp add: localModified_def)
    qed
    with S(1) show ?thesis by (simp add: would_update_def split: option.splits)
  next
    case False
    with A L have c: "map_option core (map_of (st_issues sf) (number L))
                       = map_option core (map_of (st_issues s0) (number L))"
      and w: "\<not> would_update ?mt False R (st_issues s0) L"
      by auto
    from False t1 assms(8) have r: "remoteMap R2 (number L) = remoteMap R1 (number L)"
      by simp
    have "would_update ?mt False R2 ?st1 L = would_update ?mt False R (st_issues s0) L"
      by (rule would_update_cong) (use c sf s0i r RR in simp_all)
    with w show ?thesis by simp
  qed
  show ?thesis
  proof (cases "getCurrentRepo e2")
    case (Inl err)
    then show ?thesis by (simp add: syncUp_def abort_def)
  next
    case (Inr repo2)
    obtain ctx2 su2 where init2: "syncUp_setup e2 sp2 = (ctx2, su2)"
      by (cases "syncUp_setup e2 sp2")
    define t0 where "t0 = \<lparr>st_issues = ?st1, st_updated = 0, st_tick = 0,
                             st_trace = [LogStart, LogRepo repo2] @ tr2 @ su2\<rparr>"
    have t0: "st_issues t0 = ?st1" "st_updated t0 = 0"
      "st_trace t0 = [LogStart, LogRepo repo2] @ tr2 @ su2"
      by (simp_all add: t0_def)
    have t0a: "\<forall>ev\<in>set (st_trace t0). \<forall>m. \<not> about m ev"
      unfolding t0(3) using start_trace_props[OF assms(7) init2] by blast
    have t0u: "filter is_update (st_trace t0) = []"
      unfolding filter_empty_conv using t0a is_update_about by blast
    have H2: "\<forall>L\<in>set (loadAllLocalIssues e2). \<not> would_update (getLocalFileModTime e2) False R2 ?st1 L"
      using H assms(4,5) by simp
    have "same_core ?st1 (st_issues t0)" using t0(1) by (simp add: same_core_refl)
    from syncUp_loop_idle[OF H2 this, of dryRun2 ctx2] obtain tf e2s where
      loop2: "syncUp_loop e2 False dryRun2 ctx2 R2 (loadAllLocalIssues e2) t0 = Inr tf" and
      u: "st_updated tf = st_updated t0" and
      ev2: "st_trace tf = st_trace t0 @ e2s" "filter is_update e2s = []"
      by blast
    have "syncUp e2 False dryRun2 sp2 = Some (finish_up e2 dryRun2 tf)"
      using Inr assms(7) init2 loop2 unfolding t0_def by (simp add: syncUp_def)
    moreover have "r_updated (finish_up e2 dryRun2 tf) = 0
          \<and> filter is_update (r_trace (finish_up e2 dryRun2 tf)) = []"
      using u t0(2) ev2 t0u by (auto simp: finish_up_def abort_def)
    ultimately show ?thesis by simp
  qed
qed

theorem push_twice_second_run_idle_witness:
  "\<exists>r1 r2. syncUp demo False False False = Some r1 \<and> r_error r1 = None
       \<and> r_updated r1 = 1
       \<and> r_saved r1 = Some (loadSyncState demo_second)
       \<and> syncUp demo_second False False False = Some r2
       \<and> r_updated r2 = 0
       \<and> filter is_update (r_trace r2) = []"
proof -
  let ?R1 = "[demo_issue 3 ''Three (remote)'' ''2024-02-10T00:00:00Z'' None,
              demo_issue 1 ''One (remote)'' ''2024-02-10T00:00:00Z'' None,
              demo_issue 2 ''Two'' ''2024-01-01T00:00:00Z'' None]"
  let ?R2 = "[demo_issue 2 ''Two (edited)'' ''2024-03-01T10:00:00Z'' None,
              demo_issue 3 ''Three (remote)'' ''2024-02-10T00:00:00Z'' None,
              demo_issue 1 ''One (remote)'' ''2024-02-10T00:00:00Z'' None]"
  have h5: "fetchIssues demo True None = Some (Inr ?R1, [ListIssues (fetchIssues_params True None 1)])"
    by code_simp
  have h6: "fetchIssues demo_second True None
              = Some (Inr ?R2, [ListIssues (fetchIssues_params True None 1)])"
    by code_simp
  obtain r1 where h0: "syncUp demo False False False = Some r1"
    using syncUp_returns[of demo False False False] h5 by auto
  have "r_error (the (syncUp demo False False False)) = None" by code_simp
  with h0 have h1: "r_error r1 = None" by simp
  have "r_saved (the (syncUp demo False False False)) = Some (loadSyncState demo_second)"
    by code_simp
  with h0 have h2: "r_saved r1 = Some (loadSyncState demo_second)" by simp
  have h3: "loadAllLocalIssues demo_second = loadAllLocalIssues demo"
    by (simp add: demo_second_def)
  have h4: "getLocalFileModTime demo_second = getLocalFileModTime demo"
    by (simp add: demo_second_def)
  have "UpdateIssue 2 (diff_updates
          (demo_issue 2 ''Two (edited)'' ''2024-01-01T00:00:00Z'' (Some [(''Priority'', PStr ''High'')]))
          (demo_issue 2 ''Two'' ''2024-01-01T00:00:00Z'' None))
        \<in> set (r_trace (the (syncUp demo False False False)))"
    by code_simp
  with h0 have u2: "UpdateIssue 2 (diff_updates
          (demo_issue 2 ''Two (edited)'' ''2024-01-01T00:00:00Z'' (Some [(''Priority'', PStr ''High'')]))
          (demo_issue 2 ''Two'' ''2024-01-01T00:00:00Z'' None))
        \<in> set (r_trace r1)"
    by simp
  have h7: "\<forall>n. (\<forall>u. UpdateIssue n u \<notin> set (r_trace r1)) \<longrightarrow> remoteMap ?R2 n = remoteMap ?R1 n"
  proof (intro allI impI)
    fix n assume "\<forall>u. UpdateIssue n u \<notin> set (r_trace r1)"
    with u2 have "n \<noteq> 2" by auto
    then show "remoteMap ?R2 n = remoteMap ?R1 n"
      by (simp add: remoteMap_def demo_issue_def)
  qed
  have h8: "\<forall>n t k. getLocalFileModTime demo n = Some t \<longrightarrow> t \<le> now demo k"
    by (auto simp: demo_def split: if_splits)
  have "r_updated (the (syncUp demo False False False)) = 1" by code_simp
  with h0 have c: "r_updated r1 = 1" by simp
  from push_twice_second_run_idle[OF h0 h1 h2 h3 h4 h5 h6 h7 h8, of False False]
  obtain r2 where "syncUp demo_second False False False = Some r2" "r_updated r2 = 0"
    "filter is_update (r_trace r2) = []" by blast
  with h0 h1 h2 c show ?thesis by blast
qed

section \<open>The record stored after an update\<close>

text \<open>
  C9, as amended. When a non-dry-run push that returned without an error has sent an update for an issue,
  the record it saves for the issue holds the three timestamps (two clock readings and
  the local \<open>updated_at\<close>) and no \<open>project_item_id\<close>; \<open>project_fields_updated_at\<close> is
  absent too, unless the custom-field step of the same iteration ran and found the
  remote item, in which case it holds the next clock reading. Every field mutation of
  that iteration addresses the item id of the record read before the replacement, and
  when the guard of the custom-field step holds on that record the item is queried.
\<close>

theorem push_update_resets_record:
  assumes "syncUp e force False syncProjects = Some r" and "r_error r = None"
    and "local \<in> set (loadAllLocalIssues e)"
    and "distinct (map number (loadAllLocalIssues e))"
    and "map_of (loadSyncState e) (number local) = Some syncInfo"
    and "UpdateIssue (number local) u \<in> set (r_trace r)"
  shows "\<exists>k.
           saved_record r (number local)
             = Some \<lparr> github_updated_at = now e k,
                      local_updated_at = updated_at local,
                      last_synced_at = now e (k + 1),
                      project_item_id = None,
                      project_fields_updated_at =
                        (if fields_step (fst (syncUp_setup e syncProjects)) syncInfo local
                            \<and> fst (getProjectItemForIssue e
                                      (ctx_number (fst (syncUp_setup e syncProjects)))
                                      (number local)) \<noteq> None
                         then Some (now e (k + 2)) else None) \<rparr>
         \<and> (\<forall>m. Mutate (number local) m \<in> set (r_trace r)
                \<longrightarrow> project_item_id syncInfo = Some (mutation_item m))
         \<and> (fields_step (fst (syncUp_setup e syncProjects)) syncInfo local
                \<longrightarrow> QueryItems [number local]
                      \<in> set (r_trace r))"
proof -
  let ?n = "number local"
  from assms(1,2,3,4) obtain R tr ctx s1 s2 evs where
    ctx': "ctx = fst (syncUp_setup e syncProjects)" and
    R: "fetchIssues e True None = Some (Inr R, tr)" and
    step: "syncUp_issue e force False ctx R local s1 = Inr s2" and
    rec: "map_of (st_issues s1) ?n = map_of (loadSyncState e) ?n" and
    evs: "st_trace s2 = st_trace s1 @ evs" and
    tr: "\<forall>ev. about ?n ev \<longrightarrow> (ev \<in> set (r_trace r) \<longleftrightarrow> ev \<in> set evs)" and
    sv: "\<forall>st. r_saved r = Some st \<longrightarrow> map_of st ?n = map_of (st_issues s2) ?n" and
    sv2: "False \<or> r_saved r \<noteq> None"
    by (rule syncUp_run_at)
  have uin: "UpdateIssue ?n u \<in> set evs" using tr assms(6) by simp
  have rec': "map_of (st_issues s1) ?n = Some syncInfo" using rec assms(5) by simp
  obtain remote where rem: "remoteMap R ?n = Some remote"
    using step uin evs by (cases "remoteMap R ?n") (auto simp: syncUp_issue_def emit_def)
  let ?upd = "diff_updates local remote"
  have "\<exists>sa. push_updates e False local ?upd s1 = Inr sa
            \<and> s2 = sync_project_fields e False ctx syncInfo local sa"
    using step rem rec' uin evs
    by (auto simp: syncUp_issue_def emit_def split: if_splits sum.splits)
  then obtain sa where p: "push_updates e False local ?upd s1 = Inr sa"
    and s2: "s2 = sync_project_fields e False ctx syncInfo local sa" by blast
  from sync_project_fields_effect[of e False ctx syncInfo local sa] obtain fe where
    fe: "st_trace s2 = st_trace sa @ fe" "\<forall>ev\<in>set fe. field_event ev"
      "\<forall>k m. Mutate k m \<in> set fe \<longrightarrow> project_item_id syncInfo = Some (mutation_item m)"
      "fields_step ctx syncInfo local \<longrightarrow> QueryItems [?n] \<in> set fe"
    and is2: "st_issues s2 = (if \<not> False \<and> fields_step ctx syncInfo local
               \<and> fst (getProjectItemForIssue e (ctx_number ctx) ?n) \<noteq> None
            then stamp_fields ?n (now e (st_tick sa)) (st_issues sa)
            else st_issues sa)"
    unfolding s2 by blast
  have "UpdateIssue ?n u \<notin> set fe" using fe(2) by fastforce
  with uin evs fe(1) have "sa \<noteq> s1" by auto
  with push_updates_effect[OF p] have
    pa: "st_trace sa = st_trace s1 @ [UpdateIssue ?n ?upd]"
        "st_issues sa = AList.update ?n
               \<lparr> github_updated_at = now e (st_tick s1),
                 local_updated_at = updated_at local,
                 last_synced_at = now e (st_tick s1 + 1),
                 project_item_id = None,
                 project_fields_updated_at = None \<rparr> (st_issues s1)"
        "st_tick sa = st_tick s1 + 2"
    by auto
  have evs': "evs = UpdateIssue ?n ?upd # fe" using evs fe(1) pa(1) by simp
  from sv2 obtain st where st: "r_saved r = Some st" by auto
  have m2: "map_of (st_issues s2) ?n
     = Some \<lparr> github_updated_at = now e (st_tick s1),
              local_updated_at = updated_at local,
              last_synced_at = now e (st_tick s1 + 1),
              project_item_id = None,
              project_fields_updated_at =
                (if fields_step ctx syncInfo local
                    \<and> fst (getProjectItemForIssue e (ctx_number ctx) ?n) \<noteq> None
                 then Some (now e (st_tick s1 + 2)) else None) \<rparr>"
    unfolding is2 pa(2,3)
    by (simp add: stamp_fields_def update_conv')
  have a: "map_of st ?n = Some \<lparr> github_updated_at = now e (st_tick s1),
              local_updated_at = updated_at local,
              last_synced_at = now e (st_tick s1 + 1),
              project_item_id = None,
              project_fields_updated_at =
                (if fields_step ctx syncInfo local
                    \<and> fst (getProjectItemForIssue e (ctx_number ctx) ?n) \<noteq> None
                 then Some (now e (st_tick s1 + 2)) else None) \<rparr>"
    using sv st m2 by simp
  have b: "\<forall>m. Mutate ?n m \<in> set (r_trace r) \<longrightarrow> project_item_id syncInfo = Some (mutation_item m)"
    using tr fe(3) evs' by auto
  have c: "fields_step ctx syncInfo local \<longrightarrow> QueryItems [?n] \<in> set (r_trace r)"
    using tr fe(4) evs' by auto
  have a': "saved_record r ?n = Some \<lparr> github_updated_at = now e (st_tick s1),
              local_updated_at = updated_at local,
              last_synced_at = now e (st_tick s1 + 1),
              project_item_id = None,
              project_fields_updated_at =
                (if fields_step ctx syncInfo local
                    \<and> fst (getProjectItemForIssue e (ctx_number ctx) ?n) \<noteq> None
                 then Some (now e (st_tick s1 + 2)) else None) \<rparr>"
    using st a by (simp add: saved_record_def)
  from a' b c show ?thesis unfolding ctx' by blast
qed

theorem push_update_resets_record_witness:
  "\<exists>r. syncUp demo False False True = Some r \<and> r_error r = None
   \<and> UpdateIssue 2 (diff_updates
          (demo_issue 2 ''Two (edited)'' ''2024-01-01T00:00:00Z'' (Some [(''Priority'', PStr ''High'')]))
          (demo_issue 2 ''Two'' ''2024-01-01T00:00:00Z'' None))
        \<in> set (r_trace r)
   \<and> (\<exists>k. saved_record r 2 = Some \<lparr> github_updated_at = now demo k,
                      local_updated_at = ''2024-01-01T00:00:00Z'',
                      last_synced_at = now demo (k + 1),
                      project_item_id = None,
                      project_fields_updated_at = Some (now demo (k + 2)) \<rparr>)
   \<and> QueryItems [2] \<in> set (r_trace r)"
proof -
  let ?l = "demo_issue 2 ''Two (edited)'' ''2024-01-01T00:00:00Z'' (Some [(''Priority'', PStr ''High'')])"
  let ?u = "diff_updates ?l (demo_issue 2 ''Two'' ''2024-01-01T00:00:00Z'' None)"
  have "syncUp demo False False True \<noteq> None" by code_simp
  then obtain r where h0: "syncUp demo False False True = Some r" by auto
  have "r_error (the (syncUp demo False False True)) = None" by code_simp
  with h0 have h1: "r_error r = None" by simp
  have h3: "?l \<in> set (loadAllLocalIssues demo)" by (simp add: demo_def)
  have h4: "distinct (map number (loadAllLocalIssues demo))"
    by (simp add: demo_def demo_issue_def)
  have h5: "map_of (loadSyncState demo) (number ?l) = Some (demo_record (Some ''ITEM''))"
    by (simp add: demo_def demo_issue_def)
  have "UpdateIssue (number ?l) ?u \<in> set (r_trace (the (syncUp demo False False True)))"
    by code_simp
  with h0 have h6: "UpdateIssue (number ?l) ?u \<in> set (r_trace r)" by simp
  have n: "number ?l = 2" "updated_at ?l = ''2024-01-01T00:00:00Z''"
    by (simp_all add: demo_issue_def)
  have f: "fields_step (fst (syncUp_setup demo True))
             (demo_record (Some ''ITEM'')) ?l" by code_simp
  have g: "fst (getProjectItemForIssue demo
                  (ctx_number (fst (syncUp_setup demo True))) 2) \<noteq> None"
    by code_simp
  from push_update_resets_record[OF h0 h1 h3 h4 h5 h6] h0 h1 h6 show ?thesis
    unfolding n using f g by auto
qed

text \<open>
  C9 as stated fails: after the update of issue 2 the saved record is not made of the
  three timestamps only, it carries a fresh \<open>project_fields_updated_at\<close>.
\<close>

theorem push_update_resets_record_counterexample:
  "syncUp demo False False True \<noteq> None
   \<and> r_error (the (syncUp demo False False True)) = None
   \<and> UpdateIssue 2 \<lparr>u_title = Some ''Two (edited)'', u_body = None, u_state = None,
                     u_labels = None, u_assignees = None\<rparr>
        \<in> set (r_trace (the (syncUp demo False False True)))
   \<and> map_of (loadSyncState demo) 2
       = Some \<lparr> github_updated_at = ''2024-01-01T00:00:00Z'',
                local_updated_at = ''2024-01-01T00:00:00Z'',
                last_synced_at = ''2024-01-01T00:00:05.000Z'',
                project_item_id = Some (PStr ''ITEM''),
                project_fields_updated_at = Some ''2024-01-01T00:00:05.000Z'' \<rparr>
   \<and> saved_record (the (syncUp demo False False True)) 2
       = Some \<lparr> github_updated_at = ''2024-03-01T10:00:00.000Z'',
                local_updated_at = ''2024-01-01T00:00:00Z'',
                last_synced_at = ''2024-03-01T10:00:00.000Z'',
                project_item_id = None,
                project_fields_updated_at = Some ''2024-03-01T10:00:01.000Z'' \<rparr>"
  by code_simp

section \<open>The incremental cutoff of pull\<close>

text \<open>
  C7. The listing requests of a pull that returns after reaching the listing are those
  of the pages 1, 2, ... up to the last page read, and every one of them carries the
  same cutoff. When \<open>fullSync\<close> is false and some record has a non-empty
  \<open>last_synced_at\<close>, the requests carry \<open>since\<close> equal to the greatest
  \<open>last_synced_at\<close> of the records (the empty string is below every other string, so
  the greatest of the non-empty values is the greatest of all, lemma
  \<open>synced_times_Max_all\<close>); otherwise (full sync, no record, or only empty values, which
  the program never writes) they carry no \<open>since\<close> and all issues are requested.
\<close>

theorem pull_incremental_cutoff:
  assumes "getCurrentRepo e = Inr repo" and "mkdir_ok e"
    and "syncDown e includeClosed fullSync syncProjects = Some r"
  shows "\<exists>k. filter is_list (r_trace r)
       = map (\<lambda>page. ListIssues
            \<lparr> p_state = (if includeClosed then StateAll else StateOpen),
              p_per_page = 100,
              p_page = page,
              p_since = (if fullSync \<or> synced_times (loadSyncState e) = {} then None
                         else Some (Max (synced_times (loadSyncState e)))) \<rparr>)
           [1..<Suc (Suc k)]"
proof -
  let ?ls = "lastSync_of (loadSyncState e) fullSync"
  let ?p = "fetchIssues_params includeClosed ?ls"
  have since: "(if truthy_opt ?ls then ?ls else None) = ?ls"
  proof (cases ?ls)
    case None
    then show ?thesis by simp
  next
    case (Some t)
    with lastSync_truthy[OF Some] show ?thesis
      by (simp add: truthy_opt_def)
  qed
  have p: "?p = (\<lambda>page. \<lparr> p_state = (if includeClosed then StateAll else StateOpen),
              p_per_page = 100, p_page = page,
              p_since = (if fullSync \<or> synced_times (loadSyncState e) = {} then None
                         else Some (Max (synced_times (loadSyncState e)))) \<rparr>)"
    using since unfolding lastSync_of_eq
    by (intro ext) (simp add: fetchIssues_params_def per_page_def)
  from assms obtain res tr where f: "fetchIssues e includeClosed ?ls = Some (res, tr)"
    by (cases "fetchIssues e includeClosed ?ls") (auto simp: syncDown_def)
  from fetchIssues_trace[OF f] obtain k where
    tr: "tr = map (\<lambda>q. ListIssues (?p q)) [1..<Suc (Suc k)]" by blast
  have ftr: "filter is_list tr = tr"
    unfolding tr by (rule filter_is_list_listing)
  have "filter is_list (r_trace r) = tr"
  proof (cases res)
    case (Inl err)
    with assms f ftr show ?thesis by (auto simp: syncDown_def abort_def)
  next
    case (Inr R)
    let ?tr0 = "[LogStart, LogRepo repo] @ tr @ [LogFetched (length R)]"
    obtain pf pm s0 where i: "syncDown_init e syncProjects R ?tr0 = ((pf, pm), s0)"
      by (cases "syncDown_init e syncProjects R ?tr0") auto
    from syncDown_init_props(2)[OF i] obtain cfg where
      cfg: "d_trace s0 = ?tr0 @ cfg" "\<forall>ev\<in>set cfg. cfg_event ev" by blast
    have t0: "filter is_list (d_trace s0) = tr"
      using cfg filter_is_list_cfg[OF cfg(2)] ftr by simp
    show ?thesis
    proof (cases "syncDown_loop e pf pm R s0")
      case (Inl x)
      obtain err s where x: "x = (err, s)" by (cases x)
      from syncDown_loop_Inl[OF Inl[unfolded x]] obtain ws where
        "d_trace s = d_trace s0 @ map WriteIssue ws" by blast
      then have "filter is_list (d_trace s) = tr"
        using t0 by (simp add: filter_is_list_writes)
      moreover have "r = abort err (d_trace s) 0"
        using assms f \<open>res = Inr R\<close> i Inl x by (simp add: syncDown_def)
      ultimately show ?thesis by (simp add: abort_def)
    next
      case (Inr sf)
      from syncDown_loop_Inr[OF Inr] obtain ws where
        "d_trace sf = d_trace s0 @ map WriteIssue ws" by blast
      then have "filter is_list (d_trace sf) = tr"
        using t0 by (simp add: filter_is_list_writes)
      moreover have "r = finish_down e sf"
        using assms f \<open>res = Inr R\<close> i Inr by (simp add: syncDown_def)
      ultimately show ?thesis by (simp add: finish_down_def abort_def)
    qed
  qed
  then have "filter is_list (r_trace r) = map (\<lambda>q. ListIssues (?p q)) [1..<Suc (Suc k)]"
    using tr by simp
  then show ?thesis unfolding p by (rule exI)
qed

theorem pull_incremental_cutoff_witness:
  "\<exists>r k. syncDown demo_second False False False = Some r
     \<and> filter is_list (r_trace r)
        = map (\<lambda>page. ListIssues \<lparr> p_state = StateOpen, p_per_page = 100, p_page = page,
                                    p_since = Some ''2024-03-01T10:00:00.000Z'' \<rparr>)
              [1..<Suc (Suc k)]"
proof -
  have h1: "getCurrentRepo demo_second = Inr ''acme/widgets''"
    by (simp add: demo_second_def demo_def)
  have h2: "mkdir_ok demo_second" by (simp add: demo_second_def demo_def)
  have "syncDown demo_second False False False \<noteq> None" by code_simp
  then obtain r where h3: "syncDown demo_second False False False = Some r" by auto
  have "lastSync_of (loadSyncState demo_second) False = Some ''2024-03-01T10:00:00.000Z''"
    by code_simp
  then have m: "(if False \<or> synced_times (loadSyncState demo_second) = {} then None
            else Some (Max (synced_times (loadSyncState demo_second))))
           = Some ''2024-03-01T10:00:00.000Z''"
    unfolding lastSync_of_eq .
  from pull_incremental_cutoff[OF h1 h2 h3] obtain k where
    "filter is_list (r_trace r)
       = map (\<lambda>page. ListIssues \<lparr> p_state = (if False then StateAll else StateOpen),
                p_per_page = 100, p_page = page,
                p_since = (if False \<or> synced_times (loadSyncState demo_second) = {} then None
                           else Some (Max (synced_times (loadSyncState demo_second)))) \<rparr>)
             [1..<Suc (Suc k)]" ..
  then have "filter is_list (r_trace r)
       = map (\<lambda>page. ListIssues \<lparr> p_state = StateOpen, p_per_page = 100, p_page = page,
                                    p_since = Some ''2024-03-01T10:00:00.000Z'' \<rparr>)
             [1..<Suc (Suc k)]"
    unfolding m by (simp del: upt_Suc)
  with h3 show ?thesis by blast
qed

section \<open>Batched fetch of project items\<close>



section \<open>Saving and loading an issue\<close>

text \<open>
  C10. The round trip through the local store loses a body that opens with \<open>---\<close>.
  \<open>saveIssue\<close> hands the body to \<open>matter.stringify\<close> as a string, and gray-matter
  reads a string for front matter before it writes: the body \<open>---\<close>, line break,
  \<open>Some text\<close> is taken for an unclosed front-matter block and no content is left.
  The issue is one that \<open>fetchIssues\<close> makes of a remote issue, its body equals its
  trimmed form, the save succeeds (\<open>save_then_load\<close> is \<open>None\<close> when it fails), and
  \<open>loadIssue\<close> returns the issue with an empty body. (Lemma \<open>save_load_round_trip\<close> shows the round trip for the bodies that
  gray-matter does not read as front matter.)
\<close>

theorem save_load_loses_body:
  "to_issue demo_rule_raw = demo_rule
   \<and> body demo_rule = ''---'' @ [CHR 0x0A] @ ''Some text''
   \<and> trim (body demo_rule) = body demo_rule
   \<and> save_then_load demo_rule = Some (demo_rule\<lparr>body := []\<rparr>)
   \<and> save_then_load demo_rule \<noteq> Some demo_rule"
  by code_simp

end
